theory Spec2Isabelle
  imports Main "HOL-Library.Sublist"
begin

section \<open>Strings as the two runtimes see them\<close>

text \<open>
  Strings are lists of characters. The JavaScript operations used by the rewriter
  (\<^verbatim>\<open>toLowerCase\<close>, \<^verbatim>\<open>includes\<close>, \<^verbatim>\<open>startsWith\<close>, \<^verbatim>\<open>trim\<close>,
  \<^verbatim>\<open>split(sep)[0]\<close>) and the PHP operations used by the scraper (\<^verbatim>\<open>strpos\<close>,
  \<^verbatim>\<open>ltrim\<close>, \<^verbatim>\<open>in_array\<close>, \<^verbatim>\<open>array_slice\<close>) are modelled on them. Case
  folding is the ASCII one: the only needles searched after folding are
  \<^verbatim>\<open>beyondchats\<close> and \<^verbatim>\<open>references\<close>, whose letters are images of ASCII capitals only.
\<close>

definition toLowerChar :: "char \<Rightarrow> char" where
  "toLowerChar c =
     (if 65 \<le> (of_char c :: nat) \<and> (of_char c :: nat) \<le> 90
      then char_of ((of_char c :: nat) + 32) else c)"

definition toLowerCase :: "string \<Rightarrow> string" where
  "toLowerCase s = map toLowerChar s"

text \<open>\<^verbatim>\<open>s.includes(t)\<close> and PHP's \<^verbatim>\<open>strpos(s, t) !== false\<close>: \<open>t\<close> occurs in \<open>s\<close>.\<close>

fun str_includes :: "string \<Rightarrow> string \<Rightarrow> bool" where
  "str_includes [] t = (t = [])"
| "str_includes (c # s) t = (prefix t (c # s) \<or> str_includes s t)"

text \<open>\<^verbatim>\<open>s.startsWith(p)\<close> and PHP's \<^verbatim>\<open>strpos(s, p) === 0\<close>.\<close>

definition startsWith :: "string \<Rightarrow> string \<Rightarrow> bool" where
  "startsWith s p = prefix p s"

text \<open>White space as \<^verbatim>\<open>trim\<close> and the regular-expression class \<^verbatim>\<open>\s\<close> see it
  among the ASCII characters (tab, line feed, vertical tab, form feed, carriage return,
  space); the white space beyond ASCII is not represented.\<close>

definition isSpace :: "char \<Rightarrow> bool" where
  "isSpace c = ((of_char c :: nat) \<in> {9, 10, 11, 12, 13, 32})"

definition trim :: "string \<Rightarrow> string" where
  "trim s = rev (dropWhile isSpace (rev (dropWhile isSpace s)))"

text \<open>The text with its trailing white space removed.\<close>

definition rtrimSpace :: "string \<Rightarrow> string" where
  "rtrimSpace s = rev (dropWhile isSpace (rev s))"

text \<open>\<^verbatim>\<open>s.split(sep)[0]\<close> for a one-character separator: the text before its first
  occurrence, the whole string when it does not occur.\<close>

definition splitFirst :: "char \<Rightarrow> string \<Rightarrow> string" where
  "splitFirst sep s = takeWhile (\<lambda>c. c \<noteq> sep) s"

section \<open>Requests and errors\<close>

text \<open>
  An HTTP exchange either yields a body, or an error response with a status code, or no
  response at all (time-out, refused connection).
\<close>

datatype 'a http = HttpOk 'a | HttpStatus nat | NetError

text \<open>What JavaScript code throws: an \<^verbatim>\<open>Error\<close> with a message, a request error
  that carries the status of an error response, a request error without a response, or
  a \<^verbatim>\<open>TypeError\<close> from a property read on \<^verbatim>\<open>null\<close> or \<^verbatim>\<open>undefined\<close>.\<close>

datatype js_error = Error string | HttpError nat | RequestFailed | TypeError

section \<open>The rewriter: reference filtering\<close>

text \<open>\<^verbatim>\<open>isBeyondChatsUrl\<close> of \<^verbatim>\<open>rewrite-latest.js\<close>. A missing or empty URL is falsy
  and answers false before any search.\<close>

definition isBeyondChatsUrl :: "string \<Rightarrow> bool" where
  "isBeyondChatsUrl url =
     (if url = [] then False
      else (let urlLower = toLowerCase url in
              str_includes urlLower ''beyondchats.com'' \<or>
              str_includes urlLower ''beyondchats'' \<or>
              str_includes urlLower ''www.beyondchats.com''))"

text \<open>The path test of \<^verbatim>\<open>scrapeReferenceArticles\<close>.\<close>

definition isArticlePath :: "string \<Rightarrow> bool" where
  "isArticlePath url =
     (str_includes url ''/blog/'' \<or> str_includes url ''/article/'' \<or> str_includes url ''/post/'')"

section \<open>The rewriter: searching for references\<close>

text \<open>
  The answer of the search API as \<^verbatim>\<open>searchWithSerpAPI\<close> reads it: the
  \<^verbatim>\<open>link\<close> of every organic result in order, \<open>None\<close> where a result has none.
\<close>

definition serpAccepts :: "string \<Rightarrow> bool" where
  "serpAccepts url =
     (url \<noteq> [] \<and> \<not> isBeyondChatsUrl url \<and> \<not> str_includes url ''google.com'' \<and>
      \<not> str_includes url ''youtube.com'' \<and>
      (str_includes url ''/blog/'' \<or> str_includes url ''/article/'' \<or> str_includes url ''/post/''))"

fun serpLoop :: "string option list \<Rightarrow> string list \<Rightarrow> string list" where
  "serpLoop [] urls = urls"
| "serpLoop (link # results) urls =
     (case link of
        None \<Rightarrow> serpLoop results urls
      | Some url \<Rightarrow>
          (if serpAccepts url
           then (let urls' = urls @ [url]
                 in if length urls' \<ge> 2 then urls' else serpLoop results urls')
           else serpLoop results urls))"

definition searchWithSerpAPI :: "string option list http \<Rightarrow> js_error + string list" where
  "searchWithSerpAPI response =
     (case response of
        HttpOk organic_results \<Rightarrow> Inr (serpLoop organic_results [])
      | HttpStatus st \<Rightarrow> Inl (HttpError st)
      | NetError \<Rightarrow> Inl RequestFailed)"

text \<open>
  The results page of the fallback search as \<^verbatim>\<open>searchWithDuckDuckGo\<close> reads it:
  \<open>link_hrefs sel\<close> is the \<^verbatim>\<open>href\<close> of every element matching \<open>sel\<close>, in document
  order, and \<open>result_hrefs\<close> is, for every \<^verbatim>\<open>.result\<close> element, the \<^verbatim>\<open>href\<close> of
  its first link; \<open>None\<close> where the attribute is missing.
\<close>

record ddg_page =
  link_hrefs :: "string \<Rightarrow> string option list"
  result_hrefs :: "string option list"

definition linkSelectors :: "string list" where
  "linkSelectors = [''.result__a'', ''a.result__a'', ''.web-result a'', ''.result a'']"

text \<open>\<^verbatim>\<open>href.match(/uddg=([^&]+)/)\<close>: the capture of the leftmost match.\<close>

fun uddgMatch :: "string \<Rightarrow> string option" where
  "uddgMatch [] = None"
| "uddgMatch (c # s) =
     (let capture = takeWhile (\<lambda>d. d \<noteq> CHR ''&'') (drop 5 (c # s))
      in if prefix ''uddg='' (c # s) \<and> capture \<noteq> [] then Some capture else uddgMatch s)"

text \<open>\<^verbatim>\<open>cleanUrl.match(/\/\d{4}\/\d{2}\//)\<close>: a date-shaped path segment occurs.\<close>

definition isDigit :: "char \<Rightarrow> bool" where
  "isDigit c = (48 \<le> (of_char c :: nat) \<and> (of_char c :: nat) \<le> 57)"

fun datePrefix :: "string \<Rightarrow> bool" where
  "datePrefix (a # y1 # y2 # y3 # y4 # b # m1 # m2 # c # rest) =
     (a = CHR ''/'' \<and> isDigit y1 \<and> isDigit y2 \<and> isDigit y3 \<and> isDigit y4 \<and>
      b = CHR ''/'' \<and> isDigit m1 \<and> isDigit m2 \<and> c = CHR ''/'')"
| "datePrefix s = False"

fun hasDatePath :: "string \<Rightarrow> bool" where
  "hasDatePath [] = False"
| "hasDatePath (c # s) = (datePrefix (c # s) \<or> hasDatePath s)"

text \<open>The filter of the selector loop and the narrower one of the loop over
  \<^verbatim>\<open>.result\<close> elements.\<close>

definition ddgAccepts :: "string \<Rightarrow> bool" where
  "ddgAccepts cleanUrl =
     (\<not> isBeyondChatsUrl cleanUrl \<and> \<not> str_includes cleanUrl ''duckduckgo.com'' \<and>
      \<not> str_includes cleanUrl ''google.com'' \<and>
      (str_includes cleanUrl ''/blog/'' \<or> str_includes cleanUrl ''/article/'' \<or>
       str_includes cleanUrl ''/post/'' \<or> hasDatePath cleanUrl))"

definition ddgResultAccepts :: "string \<Rightarrow> bool" where
  "ddgResultAccepts cleanUrl =
     (\<not> isBeyondChatsUrl cleanUrl \<and> \<not> str_includes cleanUrl ''duckduckgo.com'' \<and>
      (str_includes cleanUrl ''/blog/'' \<or> str_includes cleanUrl ''/article/'' \<or>
       str_includes cleanUrl ''/post/''))"

definition absoluteUrl :: "string \<Rightarrow> string" where
  "absoluteUrl cleanUrl = (if \<not> startsWith cleanUrl ''http'' then ''https://'' @ cleanUrl else cleanUrl)"

text \<open>
  One element of the selector loop. \<open>decode\<close> is \<^verbatim>\<open>decodeURIComponent\<close>, \<open>None\<close>
  where it throws; here the \<^verbatim>\<open>try\<close> around it falls back to the raw \<^verbatim>\<open>href\<close>.
\<close>

definition visitLink :: "(string \<Rightarrow> string option) \<Rightarrow> string option \<Rightarrow> string list \<Rightarrow> string list" where
  "visitLink decode h urls =
     (case h of
        None \<Rightarrow> urls
      | Some href \<Rightarrow>
          (if href = [] then urls
           else (let cleanUrl =
                       (if str_includes href ''uddg=''
                        then (case uddgMatch href of
                                None \<Rightarrow> href
                              | Some m \<Rightarrow> (case decode m of None \<Rightarrow> href | Some d \<Rightarrow> d))
                        else href);
                     cleanUrl = absoluteUrl cleanUrl
                 in if ddgAccepts cleanUrl
                    then (if cleanUrl \<notin> set urls then urls @ [cleanUrl] else urls)
                    else urls)))"

text \<open>\<^verbatim>\<open>$(selector).each(...)\<close>, which stops as soon as two URLs are held.\<close>

fun eachLink :: "(string \<Rightarrow> string option) \<Rightarrow> string option list \<Rightarrow> string list \<Rightarrow> string list" where
  "eachLink decode [] urls = urls"
| "eachLink decode (h # hs) urls =
     (if length urls \<ge> 2 then urls else eachLink decode hs (visitLink decode h urls))"

text \<open>The loop over the selectors: it leaves only when two URLs are held, otherwise
  the next selector goes on filling the same list.\<close>

fun selectorLoop ::
    "(string \<Rightarrow> string option) \<Rightarrow> ddg_page \<Rightarrow> string list \<Rightarrow> string list \<Rightarrow> string list" where
  "selectorLoop decode page [] urls = urls"
| "selectorLoop decode page (selector # selectors) urls =
     (let urls' = eachLink decode (link_hrefs page selector) urls
      in if length urls' \<ge> 2 then urls' else selectorLoop decode page selectors urls')"

text \<open>The loop over the \<^verbatim>\<open>.result\<close> elements. Nothing catches a throwing
  \<^verbatim>\<open>decodeURIComponent\<close> here but the function's outer \<^verbatim>\<open>catch\<close>: \<open>None\<close>.\<close>

fun eachResult ::
    "(string \<Rightarrow> string option) \<Rightarrow> string option list \<Rightarrow> string list \<Rightarrow> string list option" where
  "eachResult decode [] urls = Some urls"
| "eachResult decode (h # hs) urls =
     (if length urls \<ge> 2 then Some urls
      else (case h of
              None \<Rightarrow> eachResult decode hs urls
            | Some resultLink \<Rightarrow>
                (if resultLink = [] then eachResult decode hs urls
                 else (case (if str_includes resultLink ''uddg=''
                             then (case uddgMatch resultLink of
                                     None \<Rightarrow> Some resultLink
                                   | Some m \<Rightarrow> decode m)
                             else Some resultLink) of
                         None \<Rightarrow> None
                       | Some cleanUrl \<Rightarrow>
                           (let cleanUrl = absoluteUrl cleanUrl
                            in if ddgResultAccepts cleanUrl \<and> cleanUrl \<notin> set urls
                               then eachResult decode hs (urls @ [cleanUrl])
                               else eachResult decode hs urls)))))"

definition searchWithDuckDuckGo :: "(string \<Rightarrow> string option) \<Rightarrow> ddg_page http \<Rightarrow> string list" where
  "searchWithDuckDuckGo decode response =
     (case response of
        HttpOk page \<Rightarrow>
          (let urls = selectorLoop decode page linkSelectors []
           in if length urls < 2
              then (case eachResult decode (result_hrefs page) urls of
                      None \<Rightarrow> []
                    | Some urls' \<Rightarrow> take 2 urls')
              else take 2 urls)
      | HttpStatus st \<Rightarrow> []
      | NetError \<Rightarrow> [])"

text \<open>\<^verbatim>\<open>googleSearch\<close>: the search API when its key is set, the fallback otherwise;
  whatever either throws becomes the empty list.\<close>

definition googleSearch ::
    "string option \<Rightarrow> string option list http \<Rightarrow> (string \<Rightarrow> string option) \<Rightarrow> ddg_page http
      \<Rightarrow> string list" where
  "googleSearch serp_api_key serp_response decode ddg_response =
     (if serp_api_key \<noteq> None \<and> serp_api_key \<noteq> Some []
      then (case searchWithSerpAPI serp_response of Inl e \<Rightarrow> [] | Inr urls \<Rightarrow> urls)
      else searchWithDuckDuckGo decode ddg_response)"



text \<open>
  For stating what the fallback returns: the values of a list in the order of their
  first occurrence, behind the ones already held; the URL that one element of the
  selector loop offers, which is what it adds to an empty list; whether one
  \<^verbatim>\<open>.result\<close> element makes the second loop throw, and the URL it offers otherwise.
\<close>

fun keepFirstFrom :: "'a list \<Rightarrow> 'a list \<Rightarrow> 'a list" where
  "keepFirstFrom held [] = held"
| "keepFirstFrom held (x # xs) = keepFirstFrom (if x \<in> set held then held else held @ [x]) xs"




section \<open>The rewriter: scraping one reference page\<close>


text \<open>
  What \<^verbatim>\<open>scrapeArticle\<close> asks of the parsed page: \<open>first_text sel\<close> is
  \<^verbatim>\<open>$(sel).first().text()\<close> (\<open>None\<close> when nothing matches), \<open>all_text sel\<close> is
  \<^verbatim>\<open>$(sel).text()\<close>, \<open>content_text sel\<close> is the text of the first match once the
  script, style, navigation, footer, aside and advertisement elements below it have been
  removed, \<open>body_text\<close> is the text of the body after the fallback's removals.
\<close>

record js_dom =
  first_text :: "string \<Rightarrow> string option"
  all_text :: "string \<Rightarrow> string"
  content_text :: "string \<Rightarrow> string option"
  body_text :: string


definition titleSelectors :: "string list" where
  "titleSelectors =
     [''h1.entry-title'', ''h1.post-title'', ''article h1'', ''h1'',
      ''.entry-title'', ''.post-title'', ''title'']"

definition contentSelectors :: "string list" where
  "contentSelectors =
     [''article .entry-content'', ''article .post-content'', ''article .article-content'',
      ''.entry-content'', ''.post-content'', ''.article-content'', ''article'',
      ''main article'', ''main .content'', ''.content'', ''main'']"

text \<open>\<^verbatim>\<open>title.split('|')[0].split('-')[0].trim()\<close>.\<close>

definition stripSiteName :: "string \<Rightarrow> string" where
  "stripSiteName t = trim (splitFirst (CHR ''-'') (splitFirst (CHR ''|'') t))"

text \<open>The loop over the title selectors: the running title is overwritten by every
  selector that matches, and the loop stops at the first one longer than 10.\<close>

fun titleLoop :: "js_dom \<Rightarrow> string list \<Rightarrow> string \<Rightarrow> string" where
  "titleLoop doc [] title = title"
| "titleLoop doc (sel # sels) title =
     (case first_text doc sel of
        None \<Rightarrow> titleLoop doc sels title
      | Some t \<Rightarrow>
          (let title' = stripSiteName (trim t)
           in if length title' > 10 then title' else titleLoop doc sels title'))"

definition extractTitle :: "js_dom \<Rightarrow> string" where
  "extractTitle doc =
     (let title = titleLoop doc titleSelectors []
      in if title = [] \<or> length title < 5
         then stripSiteName (trim (all_text doc ''title''))
         else title)"

fun contentLoop :: "js_dom \<Rightarrow> string list \<Rightarrow> string \<Rightarrow> string" where
  "contentLoop doc [] content = content"
| "contentLoop doc (sel # sels) content =
     (case content_text doc sel of
        None \<Rightarrow> contentLoop doc sels content
      | Some t \<Rightarrow>
          (let content' = trim t
           in if length content' > 200 then content' else contentLoop doc sels content'))"

text \<open>
  \<^verbatim>\<open>replace(/\n\s*\n\s*\n/g, '\n\n')\<close>: at a line feed followed by a run of white space
  holding two more line feeds, everything up to the last line feed of the run becomes
  two line feeds, and the scan resumes behind it.
\<close>

function collapseNewlines :: "string \<Rightarrow> string" where
  "collapseNewlines [] = []"
| "collapseNewlines (c # s) =
     (let w = takeWhile isSpace s;
          rest = rev (takeWhile (\<lambda>d. d \<noteq> CHR 0x0A) (rev w))
      in if c = CHR 0x0A \<and> 2 \<le> count_list w (CHR 0x0A)
         then CHR 0x0A # CHR 0x0A # collapseNewlines (drop (length w - length rest) s)
         else c # collapseNewlines s)"
  by pat_completeness auto
termination
  by (relation "measure length") auto

text \<open>\<^verbatim>\<open>replace(/[ \t]+/g, ' ')\<close>.\<close>

definition isBlank :: "char \<Rightarrow> bool" where
  "isBlank c = (c = CHR '' '' \<or> c = CHR 0x09)"

function collapseBlanks :: "string \<Rightarrow> string" where
  "collapseBlanks [] = []"
| "collapseBlanks (c # s) =
     (if isBlank c then CHR '' '' # collapseBlanks (dropWhile isBlank s)
      else c # collapseBlanks s)"
  by pat_completeness auto
termination
  by (relation "measure length") (auto simp: length_dropWhile_le less_Suc_eq_le)

record scraped =
  scraped_title :: string
  scraped_content :: string

definition scrapeArticle :: "(string \<Rightarrow> js_dom http) \<Rightarrow> string \<Rightarrow> js_error + scraped" where
  "scrapeArticle web url =
     (case web url of
        HttpStatus st \<Rightarrow> Inl (Error ''HTTP error response'')
      | NetError \<Rightarrow> Inl (Error ''Failed to scrape article: request failed'')
      | HttpOk doc \<Rightarrow>
          (let title = extractTitle doc;
               content0 = contentLoop doc contentSelectors [];
               content1 = (if content0 = [] \<or> length content0 < 200
                           then trim (body_text doc) else content0);
               content = trim (collapseBlanks (collapseNewlines content1))
           in if content = [] \<or> length content < 100
              then Inl (Error ''Failed to scrape article: Insufficient content extracted'')
              else Inr \<lparr> scraped_title = (if title = [] then ''Untitled Article'' else title),
                         scraped_content = content \<rparr>))"

section \<open>The rewriter: collecting the references\<close>

record reference =
  ref_url :: string
  ref_title :: string
  ref_content :: string

text \<open>The loop of \<^verbatim>\<open>scrapeReferenceArticles\<close>: a page that fails to scrape, or whose
  content is not longer than 100, is skipped.\<close>

fun scrapeEach :: "(string \<Rightarrow> js_dom http) \<Rightarrow> string list \<Rightarrow> reference list" where
  "scrapeEach web [] = []"
| "scrapeEach web (url # urls) =
     (case scrapeArticle web url of
        Inl e \<Rightarrow> scrapeEach web urls
      | Inr c \<Rightarrow>
          (if scraped_content c \<noteq> [] \<and> length (scraped_content c) > 100
           then \<lparr> ref_url = url,
                  ref_title = (if scraped_title c = [] then ''Untitled Article''
                               else scraped_title c),
                  ref_content = scraped_content c \<rparr> # scrapeEach web urls
           else scrapeEach web urls))"

definition scrapeReferenceArticles ::
    "(string \<Rightarrow> js_dom http) \<Rightarrow> string list \<Rightarrow> reference list" where
  "scrapeReferenceArticles web urls =
     (let filteredUrls =
            take 2 (filter (\<lambda>url. url \<noteq> [] \<and> \<not> isBeyondChatsUrl url \<and> isArticlePath url) urls)
      in if filteredUrls = [] then [] else scrapeEach web filteredUrls)"

section \<open>The rewriter: generation backends\<close>

text \<open>Decimal numerals, as template literals and PHP's string conversion print them.\<close>

definition digitChar :: "nat \<Rightarrow> char" where
  "digitChar d = char_of (48 + d)"

fun show_nat :: "nat \<Rightarrow> string" where
  "show_nat n = (if n < 10 then [digitChar n] else show_nat (n div 10) @ [digitChar (n mod 10)])"

declare show_nat.simps [simp del]

text \<open>\<^verbatim>\<open>xs.join(sep)\<close> and \<^verbatim>\<open>xs.map((x, index) => f)\<close>.\<close>

fun join :: "string \<Rightarrow> string list \<Rightarrow> string" where
  "join sep [] = []"
| "join sep [x] = x"
| "join sep (x # y # ys) = x @ sep @ join sep (y # ys)"

fun mapIndexFrom :: "nat \<Rightarrow> (nat \<Rightarrow> 'a \<Rightarrow> 'b) \<Rightarrow> 'a list \<Rightarrow> 'b list" where
  "mapIndexFrom i f [] = []"
| "mapIndexFrom i f (x # xs) = f i x # mapIndexFrom (Suc i) f xs"

definition mapIndex :: "(nat \<Rightarrow> 'a \<Rightarrow> 'b) \<Rightarrow> 'a list \<Rightarrow> 'b list" where
  "mapIndex f xs = mapIndexFrom 0 f xs"

text \<open>
  One request to a generation backend is answered by a success response whose text field
  may be missing, by an error response with its status, or not at all. A backend is a
  function from the prompt and the number of requests already made to the answer.
\<close>

datatype api_reply = ApiText "string option" | ApiStatus nat | ApiNoResponse

type_synonym backend = "string \<Rightarrow> nat \<Rightarrow> api_reply"

datatype 'a outcome = Returned 'a | ReturnedUndefined | Threw js_error

text \<open>What a backend call did: its outcome, the number of requests it sent and the
  delays it slept, in milliseconds, in order.\<close>

record llm_run =
  run_result :: "string outcome"
  run_calls :: nat
  run_waits :: "nat list"

text \<open>
  The loop of \<^verbatim>\<open>rewriteWithGoogleGemini\<close>, at iteration \<open>i\<close>. An empty or missing
  text throws inside the \<^verbatim>\<open>try\<close>; the \<^verbatim>\<open>catch\<close> sleeps and continues only on
  status 429 before the last iteration, and rethrows everything else.
\<close>

function geminiLoop :: "backend \<Rightarrow> string \<Rightarrow> nat \<Rightarrow> nat \<Rightarrow> nat list \<Rightarrow> llm_run" where
  "geminiLoop api prompt retries i waits =
     (if i < retries then
        (case api prompt i of
           ApiText (Some t) \<Rightarrow>
             (if t \<noteq> []
              then \<lparr> run_result = Returned (trim t), run_calls = Suc i, run_waits = waits \<rparr>
              else \<lparr> run_result = Threw (Error ''Invalid response from Google Gemini API''),
                     run_calls = Suc i, run_waits = waits \<rparr>)
         | ApiText None \<Rightarrow>
             \<lparr> run_result = Threw (Error ''Invalid response from Google Gemini API''),
               run_calls = Suc i, run_waits = waits \<rparr>
         | ApiStatus st \<Rightarrow>
             (if st = 429 \<and> i < retries - 1
              then geminiLoop api prompt retries (Suc i) (waits @ [2 ^ i * 10000])
              else \<lparr> run_result = Threw (HttpError st), run_calls = Suc i, run_waits = waits \<rparr>)
         | ApiNoResponse \<Rightarrow>
             \<lparr> run_result = Threw RequestFailed, run_calls = Suc i, run_waits = waits \<rparr>)
      else \<lparr> run_result = ReturnedUndefined, run_calls = i, run_waits = waits \<rparr>)"
  by pat_completeness auto
termination
  by (relation "measure (\<lambda>(api, prompt, retries, i, waits). retries - i)") auto

declare geminiLoop.simps [simp del]

text \<open>The delay slept after the failed request number \<open>k\<close>, counted from 0:
  \<^verbatim>\<open>Math.pow(2, i) * 10000\<close>.\<close>

definition backoff :: "nat \<Rightarrow> nat" where
  "backoff k = 2 ^ k * 10000"

definition rewriteWithGoogleGemini :: "backend \<Rightarrow> string \<Rightarrow> nat \<Rightarrow> llm_run" where
  "rewriteWithGoogleGemini api prompt retries = geminiLoop api prompt retries 0 []"

text \<open>\<^verbatim>\<open>rewriteWithOllama\<close> sends one request and reads \<^verbatim>\<open>.trim()\<close> off the text of
  the answer; nothing catches what the request throws.\<close>

definition rewriteWithOllama :: "backend \<Rightarrow> string \<Rightarrow> llm_run" where
  "rewriteWithOllama api prompt =
     \<lparr> run_result =
         (case api prompt 0 of
            ApiText (Some t) \<Rightarrow> Returned (trim t)
          | ApiText None \<Rightarrow> Threw TypeError
          | ApiStatus st \<Rightarrow> Threw (HttpError st)
          | ApiNoResponse \<Rightarrow> Threw RequestFailed),
       run_calls = 1, run_waits = [] \<rparr>"

text \<open>
  \<^verbatim>\<open>rewriteWithOpenAI\<close> goes through the client object of the OpenAI library, built at
  start-up with the library's defaults. The library is not among the sources, and it may
  resend a request by itself; so one call of \<^verbatim>\<open>chat.completions.create\<close> is taken as
  it is observed from outside: the answer it ends with, the requests it sent and the
  delays it slept. The function adds one \<^verbatim>\<open>.trim()\<close> and nothing else.
\<close>

record client_run =
  cl_reply :: api_reply
  cl_requests :: nat
  cl_waits :: "nat list"

type_synonym openai_client = "string \<Rightarrow> client_run"

definition rewriteWithOpenAI :: "openai_client \<Rightarrow> string \<Rightarrow> llm_run" where
  "rewriteWithOpenAI openai prompt =
     (let completion = openai prompt
      in \<lparr> run_result =
             (case cl_reply completion of
                ApiText (Some t) \<Rightarrow> Returned (trim t)
              | ApiText None \<Rightarrow> Threw TypeError
              | ApiStatus st \<Rightarrow> Threw (HttpError st)
              | ApiNoResponse \<Rightarrow> Threw RequestFailed),
           run_calls = cl_requests completion, run_waits = cl_waits completion \<rparr>)"

section \<open>The rewriter: prompt and references section\<close>

definition referenceSummary :: "reference list \<Rightarrow> string" where
  \<open>referenceSummary references =
     join ''\<newline>\<newline>---\<newline>\<newline>''
       (mapIndex (\<lambda>index ref.
            ''Reference Article '' @ show_nat (index + 1) @ '':\<newline>Title: '' @ ref_title ref @
            ''\<newline>URL: '' @ ref_url ref @
            ''\<newline>Content Sample: '' @ take 800 (ref_content ref) @ ''...'')
          references)\<close>

definition numberedUrls :: "reference list \<Rightarrow> string" where
  "numberedUrls references =
     join ''\<newline>'' (mapIndex (\<lambda>i ref. show_nat (i + 1) @ ''. '' @ ref_url ref) references)"

definition buildPrompt :: "string \<Rightarrow> string \<Rightarrow> reference list \<Rightarrow> string" where
  \<open>buildPrompt title content references =
     ''You are an expert content writer and SEO specialist. Your task is to rewrite the following article to improve its quality, formatting, and match the style of top-ranking articles on Google.\<newline>\<newline>INSTRUCTIONS:\<newline>1. Analyze the writing style, tone, and formatting of the reference articles\<newline>2. Rewrite the original article to match that style while preserving all key information\<newline>3. Improve formatting with proper headings, paragraphs, and structure\<newline>4. Use original phrasing - DO NOT copy sentences from reference articles\<newline>5. Maintain the original article's intent and core message\<newline>6. Make the content more engaging and professional\<newline>7. Add a "References" section at the very bottom with proper citations\<newline>\<newline>Original Article to Rewrite:\<newline>Title: '' @
     title @ ''\<newline>\<newline>Content:\<newline>'' @ content @
     ''\<newline>\<newline>Reference Articles (Study their style, tone, and formatting):\<newline>'' @
     referenceSummary references @
     ''\<newline>\<newline>IMPORTANT:\<newline>- The rewritten article must be original and not plagiarized\<newline>- Match the professional tone and formatting style of the reference articles\<newline>- Preserve all important information from the original article\<newline>- Add a "References" section at the end with these URLs:\<newline>'' @
     numberedUrls references @ ''\<newline>\<newline>Now rewrite the article:''\<close>

text \<open>The lines of the appended section, \<^verbatim>\<open>`${i + 1}. [${ref.title}](${ref.url})`\<close>.\<close>

definition referenceLines :: "reference list \<Rightarrow> string list" where
  "referenceLines references =
     mapIndex (\<lambda>i ref. show_nat (i + 1) @ ''. ['' @ ref_title ref @ ''](''  @ ref_url ref @ '')'')
       references"

text \<open>The post-validation of \<^verbatim>\<open>rewriteWithLLM\<close>: the section is appended only
  when the lower-cased text does not contain \<^verbatim>\<open>references\<close>.\<close>

definition ensureReferences :: "reference list \<Rightarrow> string \<Rightarrow> string" where
  "ensureReferences references rewrittenContent =
     (if \<not> str_includes (toLowerCase rewrittenContent) ''references''
      then rewrittenContent @ ''\<newline>\<newline>## References\<newline>\<newline>'' @
           join ''\<newline>'' (referenceLines references)
      else rewrittenContent)"

text \<open>The dispatch on \<^verbatim>\<open>LLM_PROVIDER\<close>; the Gemini call takes its default of 3
  retries. \<open>api\<close> answers the requests sent to Gemini or Ollama, \<open>openai\<close> is the
  OpenAI client.\<close>

definition generate :: "string \<Rightarrow> backend \<Rightarrow> openai_client \<Rightarrow> string \<Rightarrow> llm_run" where
  "generate provider api openai prompt =
     (if provider = ''google'' then rewriteWithGoogleGemini api prompt 3
      else if provider = ''openai'' then rewriteWithOpenAI openai prompt
      else if provider = ''ollama'' then rewriteWithOllama api prompt
      else \<lparr> run_result = Threw (Error ''Unsupported LLM provider''),
             run_calls = 0, run_waits = [] \<rparr>)"

text \<open>\<^verbatim>\<open>rewriteWithLLM\<close>: the rewritten text, or the error its \<^verbatim>\<open>catch\<close> rethrows,
  with the number of backend requests made. A backend call that returned
  \<^verbatim>\<open>undefined\<close> fails at \<^verbatim>\<open>toLowerCase\<close> and is rethrown like the others.\<close>

definition rewriteWithLLM ::
    "string \<Rightarrow> backend \<Rightarrow> openai_client \<Rightarrow> string \<Rightarrow> string \<Rightarrow> reference list
      \<Rightarrow> (js_error + string) \<times> nat" where
  "rewriteWithLLM provider api openai title content references =
     (let run = generate provider api openai (buildPrompt title content references)
      in (case run_result run of
            Returned rewrittenContent \<Rightarrow> Inr (ensureReferences references rewrittenContent)
          | ReturnedUndefined \<Rightarrow> Inl (Error ''LLM rewriting failed'')
          | Threw e \<Rightarrow> Inl (Error ''LLM rewriting failed''),
          run_calls run))"

section \<open>The scraper: titles\<close>

text \<open>PHP's \<^verbatim>\<open>trim\<close> strips space, tab, line feed, carriage return, NUL and
  vertical tab.\<close>

definition isPhpTrimChar :: "char \<Rightarrow> bool" where
  "isPhpTrimChar c = ((of_char c :: nat) \<in> {0, 9, 10, 11, 13, 32})"

definition php_trim :: "string \<Rightarrow> string" where
  "php_trim s = rev (dropWhile isPhpTrimChar (rev (dropWhile isPhpTrimChar s)))"

text \<open>
  \<^verbatim>\<open>preg_replace('/\s*[-|]\s*.*$/', '', $title)\<close>. The expression matches at a
  position when the white space there is followed by a hyphen or a pipe and, behind the
  white space after that, no line feed remains but possibly a last one (the dot does not
  cross a line feed, the dollar accepts the end or a final line feed). The leftmost
  match is removed; it reaches the end of the subject, so there is no second one.
\<close>

definition isSep :: "char \<Rightarrow> bool" where
  "isSep c = (c = CHR ''-'' \<or> c = CHR ''|'')"

definition tailMatch :: "string \<Rightarrow> string option" where
  "tailMatch r =
     (let r' = dropWhile isSpace r
      in if CHR 0x0A \<notin> set r' then Some []
         else if last r' = CHR 0x0A \<and> CHR 0x0A \<notin> set (butlast r') then Some [CHR 0x0A]
         else None)"

definition matchAt :: "string \<Rightarrow> string option" where
  "matchAt u =
     (case dropWhile isSpace u of
        [] \<Rightarrow> None
      | c # r \<Rightarrow> if isSep c then tailMatch r else None)"

fun pregStripSuffix :: "string \<Rightarrow> string" where
  "pregStripSuffix [] = []"
| "pregStripSuffix (c # s) =
     (case matchAt (c # s) of
        Some kept \<Rightarrow> kept
      | None \<Rightarrow> c # pregStripSuffix s)"

text \<open>
  What the scraper's \<^verbatim>\<open>scrapeArticle\<close> finds for the title: a node for
  \<^verbatim>\<open>h1, article h1, .post-title, .entry-title\<close> with its text, else a
  \<^verbatim>\<open>title\<close> node with its text, else nothing; or the crawler throws and the
  \<^verbatim>\<open>h1\<close> pattern is tried on the markup (its capture, tags stripped).
\<close>

datatype title_query =
    Heading string
  | PageTitle string
  | NoTitle
  | CrawlerThrew "string option"

definition scrapedTitle :: "title_query \<Rightarrow> string option" where
  "scrapedTitle q =
     (case q of
        Heading t \<Rightarrow> Some (php_trim t)
      | PageTitle t \<Rightarrow> Some (pregStripSuffix (php_trim t))
      | NoTitle \<Rightarrow> None
      | CrawlerThrew h \<Rightarrow> h)"

section \<open>The article store\<close>

text \<open>
  A row of the \<^verbatim>\<open>articles\<close> table, as the two migrations declare it (the timestamps
  \<^verbatim>\<open>created_at\<close> and \<^verbatim>\<open>updated_at\<close> are left out), and the table as the list of its
  rows in insertion order. The JSON of an article that the rewriter receives has the
  same fields.
\<close>

record article =
  art_id :: nat
  art_title :: string
  art_slug :: string
  art_content :: string
  art_source_url :: "string option"
  art_version :: string
  art_is_rewritten :: bool
  art_parent_article_id :: "nat option"
  art_references :: "string list option"
  art_published_at :: "string option"

text \<open>What the database throws, with its SQLSTATE code: 23000 for a violated unique or
  foreign key, 22001 for a value too long for its column.\<close>

datatype query_exception = QueryException nat

text \<open>The auto-increment key: an identifier above all those in the table.\<close>

definition nextId :: "article list \<Rightarrow> nat" where
  "nextId rows = Suc (foldr (\<lambda>a m. max (art_id a) m) rows 0)"

definition slugExists :: "article list \<Rightarrow> string \<Rightarrow> bool" where
  "slugExists rows slug = (slug \<in> set (map art_slug rows))"

definition sourceUrlExists :: "article list \<Rightarrow> string \<Rightarrow> bool" where
  "sourceUrlExists rows url = (Some url \<in> set (map art_source_url rows))"

definition idExists :: "article list \<Rightarrow> nat \<Rightarrow> bool" where
  "idExists rows i = (i \<in> set (map art_id rows))"

text \<open>
  An insertion under the constraints of the first migration: \<^verbatim>\<open>title\<close>, \<^verbatim>\<open>slug\<close>
  and \<^verbatim>\<open>source_url\<close> are strings of at most 255 characters, \<^verbatim>\<open>slug\<close> and a non-null
  \<^verbatim>\<open>source_url\<close> are unique, a non-null \<^verbatim>\<open>parent_article_id\<close> references a row.
  The new row gets the next identifier and is returned with the new table.
\<close>

definition insertArticle ::
    "article list \<Rightarrow> article \<Rightarrow> query_exception + (article \<times> article list)" where
  "insertArticle rows a =
     (if length (art_title a) > 255 \<or> length (art_slug a) > 255 \<or>
         (case art_source_url a of None \<Rightarrow> False | Some u \<Rightarrow> length u > 255)
      then Inl (QueryException 22001)
      else if slugExists rows (art_slug a) \<or>
              (case art_source_url a of None \<Rightarrow> False | Some u \<Rightarrow> sourceUrlExists rows u) \<or>
              (case art_parent_article_id a of None \<Rightarrow> False | Some p \<Rightarrow> \<not> idExists rows p)
      then Inl (QueryException 23000)
      else (let a' = a\<lparr>art_id := nextId rows\<rparr> in Inr (a', rows @ [a'])))"

text \<open>
  What the store's code takes from the framework and from its model class, which are
  not among the sources: the \<^verbatim>\<open>url\<close> and \<^verbatim>\<open>date\<close> validation rules, the slug the
  \<^verbatim>\<open>Article\<close> model gives a row created without one, and \<^verbatim>\<open>Str::slug\<close>. The model's
  mass assignment is taken to admit the validated fields and \<^verbatim>\<open>is_rewritten\<close>, as
  the controller expects of it.
\<close>

record framework =
  valid_url :: "string \<Rightarrow> bool"
  valid_date :: "string \<Rightarrow> bool"
  model_slug :: "article list \<Rightarrow> string \<Rightarrow> string"
  str_slug :: "string \<Rightarrow> string"

text \<open>The body of a POST to \<^verbatim>\<open>/api/articles\<close>; \<open>None\<close> is a field that is absent, null
  or empty.\<close>

record request =
  req_title :: "string option"
  req_content :: "string option"
  req_source_url :: "string option"
  req_version :: "string option"
  req_parent_article_id :: "nat option"
  req_references :: "string list option"
  req_published_at :: "string option"

datatype response = Created article | ValidationFailed | ServerError query_exception

text \<open>The rules of \<^verbatim>\<open>ArticleController::store\<close>.\<close>

definition validates :: "framework \<Rightarrow> article list \<Rightarrow> request \<Rightarrow> bool" where
  "validates fw rows req =
     ((case req_title req of None \<Rightarrow> False | Some t \<Rightarrow> php_trim t \<noteq> [] \<and> length t \<le> 255) \<and>
      (case req_content req of None \<Rightarrow> False | Some c \<Rightarrow> php_trim c \<noteq> []) \<and>
      (case req_source_url req of
         None \<Rightarrow> True
       | Some u \<Rightarrow> valid_url fw u \<and> \<not> sourceUrlExists rows u) \<and>
      (case req_version req of
         None \<Rightarrow> False
       | Some v \<Rightarrow> v = ''original'' \<or> v = ''rewritten'') \<and>
      (case req_parent_article_id req of None \<Rightarrow> True | Some p \<Rightarrow> idExists rows p) \<and>
      (case req_references req of None \<Rightarrow> True | Some rs \<Rightarrow> list_all (valid_url fw) rs) \<and>
      (case req_published_at req of None \<Rightarrow> True | Some d \<Rightarrow> valid_date fw d))"

text \<open>\<^verbatim>\<open>$parentArticle->update(['is_rewritten' => true])\<close> on the row found by its key.\<close>

definition markRewritten :: "nat \<Rightarrow> article list \<Rightarrow> article list" where
  "markRewritten p rows =
     map (\<lambda>r. if art_id r = p then r\<lparr>art_is_rewritten := True\<rparr> else r) rows"

text \<open>
  \<^verbatim>\<open>ArticleController::store\<close>: validation, creation, and then the parent is marked
  when the created row's version is \<^verbatim>\<open>rewritten\<close> and its parent key is truthy and
  found. A database exception leaves the handler and the table as it was.
\<close>

definition store :: "framework \<Rightarrow> article list \<Rightarrow> request \<Rightarrow> response \<times> article list" where
  "store fw rows req =
     (if \<not> validates fw rows req then (ValidationFailed, rows)
      else
        (let title = the (req_title req);
             a0 = \<lparr> art_id = 0, art_title = title, art_slug = model_slug fw rows title,
                    art_content = the (req_content req),
                    art_source_url = req_source_url req,
                    art_version = the (req_version req),
                    art_is_rewritten = False,
                    art_parent_article_id = req_parent_article_id req,
                    art_references = req_references req,
                    art_published_at = req_published_at req \<rparr>
         in case insertArticle rows a0 of
              Inl e \<Rightarrow> (ServerError e, rows)
            | Inr (a, rows') \<Rightarrow>
                (case art_parent_article_id a of
                   None \<Rightarrow> (Created a, rows')
                 | Some p \<Rightarrow>
                     (if art_version a = ''rewritten'' \<and> p \<noteq> 0 \<and> idExists rows' p
                      then (Created a, markRewritten p rows')
                      else (Created a, rows')))))"

section \<open>The scraper: listing pages\<close>

text \<open>PHP takes the empty string and \<^verbatim>\<open>"0"\<close> for false.\<close>

definition phpTruthy :: "string \<Rightarrow> bool" where
  "phpTruthy s = (s \<noteq> [] \<and> s \<noteq> ''0'')"

text \<open>
  A listing page as \<^verbatim>\<open>getArticleUrlsFromPage\<close> reads it: \<open>selector_hrefs sel\<close> is the
  \<^verbatim>\<open>href\<close> of every node matching \<open>sel\<close>, in document order (\<open>None\<close> where the
  attribute is missing), and \<open>regex_hrefs\<close> are the captures of the fallback pattern
  on the markup.
\<close>

record listing_page =
  selector_hrefs :: "string \<Rightarrow> string option list"
  regex_hrefs :: "string list"

definition articleLinkSelectors :: "string list" where
  \<open>articleLinkSelectors =
     [''.entries article.entry-card .entry-title a'',
      ''.entries .entry-card .entry-title a'',
      ''.entries article a[href*="/blogs/"]'',
      ''.entries .entry-card a[href*="/blogs/"]'',
      ''article.entry-card a[href*="/blogs/"]'',
      ''.entry-title a[href*="/blogs/"]'',
      ''article a[href*="/blogs/"]'',
      ''.post a[href*="/blogs/"]'',
      ''a[href*="/blogs/"]'']\<close>

text \<open>\<^verbatim>\<open>'https://beyondchats.com' . ltrim($url, '/')\<close> for a URL that does not start
  with \<^verbatim>\<open>http\<close>.\<close>

definition makeAbsolute :: "string \<Rightarrow> string" where
  "makeAbsolute url =
     (if \<not> startsWith url ''http''
      then ''https://beyondchats.com'' @ dropWhile (\<lambda>c. c = CHR ''/'') url
      else url)"

definition isExcludedLink :: "string \<Rightarrow> bool" where
  "isExcludedLink url =
     (str_includes url ''?page='' \<or> str_includes url ''/page/'' \<or>
      str_includes url ''/category/'' \<or> str_includes url ''/tag/'' \<or>
      str_includes url ''/author/'' \<or> str_includes url ''#'')"

definition isArticleLink :: "string \<Rightarrow> bool" where
  "isArticleLink url = (str_includes url ''/blogs/'' \<and> \<not> isExcludedLink url)"

text \<open>The closure run on every node of one selector: it appends to \<open>urls\<close> and counts
  in \<open>found\<close>.\<close>

fun eachNode :: "string option list \<Rightarrow> string list \<times> nat \<Rightarrow> string list \<times> nat" where
  "eachNode [] (urls, found) = (urls, found)"
| "eachNode (h # hs) (urls, found) =
     (case h of
        None \<Rightarrow> eachNode hs (urls, found)
      | Some href \<Rightarrow>
          (if phpTruthy href
           then (let url = makeAbsolute href
                 in if isArticleLink url \<and> url \<notin> set urls
                    then eachNode hs (urls @ [url], Suc found)
                    else eachNode hs (urls, found))
           else eachNode hs (urls, found)))"

text \<open>The loop over the selectors stops at the first one that found a link.\<close>

fun selectorCascade :: "listing_page \<Rightarrow> string list \<Rightarrow> string list \<Rightarrow> string list" where
  "selectorCascade page [] urls = urls"
| "selectorCascade page (selector # selectors) urls =
     (case eachNode (selector_hrefs page selector) (urls, 0) of
        (urls', found) \<Rightarrow>
          if found > 0 then urls' else selectorCascade page selectors urls')"

fun regexFallback :: "string list \<Rightarrow> string list \<Rightarrow> string list" where
  "regexFallback [] urls = urls"
| "regexFallback (href # hrefs) urls =
     (if isExcludedLink href then regexFallback hrefs urls
      else (let url = makeAbsolute href
            in if str_includes url ''/blogs/'' \<and> url \<notin> set urls
               then regexFallback hrefs (urls @ [url])
               else regexFallback hrefs urls))"

text \<open>\<^verbatim>\<open>array_unique\<close> keeps the first of equal values.\<close>

definition array_unique :: "'a list \<Rightarrow> 'a list" where
  "array_unique xs = rev (remdups (rev xs))"

definition getArticleUrlsFromPage :: "listing_page http \<Rightarrow> string list" where
  "getArticleUrlsFromPage response =
     (case response of
        HttpOk page \<Rightarrow>
          (let urls = selectorCascade page articleLinkSelectors [];
               urls = (if urls = [] then regexFallback (regex_hrefs page) [] else urls)
           in array_unique urls)
      | HttpStatus st \<Rightarrow> []
      | NetError \<Rightarrow> [])"

section \<open>The scraper: collecting the batch\<close>

text \<open>\<^verbatim>\<open>array_slice($xs, -$n)\<close> for a positive \<open>n\<close>: the last \<open>n\<close> values, all of them
  when there are fewer.\<close>

definition array_slice_last :: "'a list \<Rightarrow> nat \<Rightarrow> 'a list" where
  "array_slice_last xs n = drop (length xs - n) xs"

text \<open>The \<^verbatim>\<open>foreach\<close> that adds the links of a page, skipping the ones already held
  and stopping at the target.\<close>

fun addArticles :: "nat \<Rightarrow> string list \<Rightarrow> string list \<Rightarrow> string list" where
  "addArticles targetCount [] articleUrls = articleUrls"
| "addArticles targetCount (url # urls) articleUrls =
     (if url \<notin> set articleUrls \<and> length articleUrls < targetCount
      then addArticles targetCount urls (articleUrls @ [url])
      else addArticles targetCount urls articleUrls)"

text \<open>
  The \<^verbatim>\<open>while\<close> loop of \<^verbatim>\<open>handle\<close>, by the current page: it runs while fewer than
  \<open>targetCount\<close> URLs are held and the page is at least 1, and steps to the previous
  page when the page gave nothing or the target is still not met.
\<close>

fun collectLoop :: "(nat \<Rightarrow> string list) \<Rightarrow> nat \<Rightarrow> nat \<Rightarrow> string list \<Rightarrow> string list" where
  "collectLoop pageArticlesOf targetCount 0 articleUrls = articleUrls"
| "collectLoop pageArticlesOf targetCount (Suc p) articleUrls =
     (if length articleUrls < targetCount
      then (let pageArticles = pageArticlesOf (Suc p)
            in if pageArticles = []
               then collectLoop pageArticlesOf targetCount p articleUrls
               else (let needed = targetCount - length articleUrls;
                         articleUrls' =
                           (if needed > 0
                            then addArticles targetCount
                                   (array_slice_last pageArticles needed) articleUrls
                            else articleUrls)
                     in if length articleUrls' < targetCount
                        then collectLoop pageArticlesOf targetCount p articleUrls'
                        else articleUrls'))
      else articleUrls)"

text \<open>
  The site as the scraper meets it: the largest page number \<^verbatim>\<open>findLastPage\<close> detects
  on the root page, the listing pages by number, the article pages by URL, and the
  clock.
\<close>

record php_page =
  pg_title :: title_query
  pg_content :: "string option"
  pg_date :: "string option"

record site =
  site_max_page :: "nat http"
  site_listing :: "nat \<Rightarrow> listing_page http"
  site_article :: "string \<Rightarrow> php_page http"
  site_now :: string

definition findLastPage :: "site \<Rightarrow> nat" where
  "findLastPage s =
     (case site_max_page s of HttpOk maxPage \<Rightarrow> max 1 maxPage | HttpStatus st \<Rightarrow> 1 | NetError \<Rightarrow> 1)"

text \<open>The batch of \<^verbatim>\<open>handle\<close>, with its \<^verbatim>\<open>$targetCount = 5\<close>: the collected URLs,
  cut to the target by \<^verbatim>\<open>array_slice($articleUrls, 0, $targetCount)\<close>.\<close>

definition targetCount :: nat where
  "targetCount = 5"

definition collectArticleUrls :: "site \<Rightarrow> string list" where
  "collectArticleUrls s =
     collectLoop (\<lambda>p. getArticleUrlsFromPage (site_listing s p)) targetCount (findLastPage s) []"

definition batchUrls :: "site \<Rightarrow> string list" where
  "batchUrls s = take targetCount (collectArticleUrls s)"

section \<open>The scraper: storing the batch\<close>

text \<open>
  The scraper's \<^verbatim>\<open>scrapeArticle\<close>: \<open>pg_content\<close> is the cleaned text of the content
  node it finds, \<open>pg_date\<close> the formatted date; a page without a title, without
  content, or with less than 100 characters of content gives nothing.
\<close>

record scraped_article =
  sa_title :: string
  sa_content :: string
  sa_published_at :: "string option"

definition scrapeArticlePhp :: "(string \<Rightarrow> php_page http) \<Rightarrow> string \<Rightarrow> scraped_article option" where
  "scrapeArticlePhp pages url =
     (case pages url of
        HttpOk pg \<Rightarrow>
          (case (scrapedTitle (pg_title pg), pg_content pg) of
             (Some title, Some content) \<Rightarrow>
               if \<not> phpTruthy title \<or> \<not> phpTruthy content \<or> length content < 100 then None
               else Some \<lparr> sa_title = title, sa_content = content,
                           sa_published_at = pg_date pg \<rparr>
           | _ \<Rightarrow> None)
      | HttpStatus st \<Rightarrow> None
      | NetError \<Rightarrow> None)"

text \<open>
  \<^verbatim>\<open>generateUniqueSlug\<close>: the base slug, or the first of \<open>base-1\<close>, \<open>base-2\<close>, ... that no
  row has. The loop ends because a numeral longer than every slug in the table cannot
  be taken.
\<close>

definition maxSlugLength :: "article list \<Rightarrow> nat" where
  "maxSlugLength rows = foldr (\<lambda>a m. max (length (art_slug a)) m) rows 0"

function slugLoop :: "article list \<Rightarrow> string \<Rightarrow> nat \<Rightarrow> string" where
  "slugLoop rows baseSlug counter =
     (let slug = baseSlug @ ''-'' @ show_nat counter
      in if slugExists rows slug then slugLoop rows baseSlug (Suc counter) else slug)"
  by pat_completeness auto
termination
proof (relation "measure (\<lambda>(rows, baseSlug, counter). 10 ^ maxSlugLength rows - counter)",
    goal_cases)
  case 1
  show ?case by simp
next
  case (2 rows baseSlug counter slug)
  have digits: "n < 10 ^ length (show_nat n)" for n
  proof (induction n rule: show_nat.induct)
    case (1 n)
    show ?case
    proof (cases "n < 10")
      case True
      then show ?thesis by (subst show_nat.simps) simp
    next
      case False
      then have "n div 10 < 10 ^ length (show_nat (n div 10))" using 1 by simp
      then have "n < 10 * 10 ^ length (show_nat (n div 10))" by simp
      then show ?thesis using False by (subst show_nat.simps) simp
    qed
  qed
  have bound: "length (art_slug a) \<le> maxSlugLength rs" if "a \<in> set rs" for a rs
    using that by (induction rs) (auto simp: maxSlugLength_def)
  from 2 obtain a where "a \<in> set rows" "art_slug a = baseSlug @ ''-'' @ show_nat counter"
    by (auto simp: slugExists_def)
  then have "length (show_nat counter) \<le> maxSlugLength rows"
    using bound [of a rows] by simp
  then have "(10::nat) ^ length (show_nat counter) \<le> 10 ^ maxSlugLength rows"
    by (simp add: power_increasing)
  with digits [of counter] have "counter < 10 ^ maxSlugLength rows" by (rule less_le_trans)
  then show ?case by simp
qed

declare slugLoop.simps [simp del]

definition generateUniqueSlug :: "article list \<Rightarrow> string \<Rightarrow> string" where
  "generateUniqueSlug rows baseSlug =
     (if slugExists rows baseSlug then slugLoop rows baseSlug 1 else baseSlug)"


datatype command_status = SUCCESS | FAILURE

text \<open>What a run of the command did: its status, the table after it, and its two
  counters.\<close>

record scrape_run =
  sr_status :: command_status
  sr_rows :: "article list"
  sr_scraped :: nat
  sr_skipped :: nat

text \<open>
  The \<^verbatim>\<open>foreach\<close> over the batch. A URL that some row has as \<^verbatim>\<open>source_url\<close> is
  skipped; a page that does not scrape is passed over; otherwise the article is created
  under a fresh slug. A database exception with code 23000 counts as skipped, any other
  one leaves the loop and fails the command.
\<close>

fun storeLoop ::
    "framework \<Rightarrow> site \<Rightarrow> string list \<Rightarrow> article list \<Rightarrow> nat \<Rightarrow> nat \<Rightarrow> scrape_run" where
  "storeLoop fw s [] rows scraped skipped =
     \<lparr> sr_status = SUCCESS, sr_rows = rows, sr_scraped = scraped, sr_skipped = skipped \<rparr>"
| "storeLoop fw s (url # urls) rows scraped skipped =
     (if sourceUrlExists rows url then storeLoop fw s urls rows scraped (Suc skipped)
      else
        (case scrapeArticlePhp (site_article s) url of
           None \<Rightarrow> storeLoop fw s urls rows scraped skipped
         | Some articleData \<Rightarrow>
             (let baseSlug = str_slug fw (sa_title articleData);
                  slug = generateUniqueSlug rows baseSlug
              in if slugExists rows slug then storeLoop fw s urls rows scraped (Suc skipped)
                 else
                   (case insertArticle rows
                           \<lparr> art_id = 0, art_title = sa_title articleData, art_slug = slug,
                             art_content = sa_content articleData,
                             art_source_url = Some url, art_version = ''original'',
                             art_is_rewritten = False, art_parent_article_id = None,
                             art_references = None,
                             art_published_at =
                               Some (case sa_published_at articleData of
                                       None \<Rightarrow> site_now s | Some d \<Rightarrow> d) \<rparr> of
                      Inr (a, rows') \<Rightarrow> storeLoop fw s urls rows' (Suc scraped) skipped
                    | Inl (QueryException code) \<Rightarrow>
                        if code = 23000 then storeLoop fw s urls rows scraped (Suc skipped)
                        else \<lparr> sr_status = FAILURE, sr_rows = rows, sr_scraped = scraped,
                               sr_skipped = skipped \<rparr>))))"

text \<open>\<^verbatim>\<open>ScrapeBeyondChats::handle\<close>.\<close>

definition handle :: "framework \<Rightarrow> site \<Rightarrow> article list \<Rightarrow> scrape_run" where
  "handle fw s rows =
     (if collectArticleUrls s = []
      then \<lparr> sr_status = FAILURE, sr_rows = rows, sr_scraped = 0, sr_skipped = 0 \<rparr>
      else storeLoop fw s (batchUrls s) rows 0 0)"

section \<open>The rewriter: one run\<close>

text \<open>
  Everything outside the rewriter that one run of \<^verbatim>\<open>rewriteLatest\<close> meets: the
  answer to \<^verbatim>\<open>GET /api/articles/latest\<close>, the search key and the answers of the two
  searches to a query, \<^verbatim>\<open>decodeURIComponent\<close>, the web, the configured provider,
  the backend and the OpenAI client, and whether the POST reaches the store.
\<close>

record rewriter_env =
  env_latest :: "article http"
  env_serp_key :: "string option"
  env_serp :: "string \<Rightarrow> string option list http"
  env_ddg :: "string \<Rightarrow> ddg_page http"
  env_decode :: "string \<Rightarrow> string option"
  env_web :: "string \<Rightarrow> js_dom http"
  env_provider :: string
  env_api :: backend
  env_openai :: openai_client
  env_store_reachable :: bool

definition fetchLatestArticle :: "rewriter_env \<Rightarrow> js_error + article option" where
  "fetchLatestArticle env =
     (case env_latest env of
        HttpOk a \<Rightarrow> Inr (Some a)
      | HttpStatus st \<Rightarrow>
          if st = 404 then Inr None else Inl (Error ''Failed to fetch latest article'')
      | NetError \<Rightarrow> Inl (Error ''Failed to fetch latest article''))"

text \<open>\<^verbatim>\<open>publishArticle\<close>: the POST, handled by \<open>store\<close>; any answer but the created
  record is thrown.\<close>

definition publishArticle ::
    "framework \<Rightarrow> rewriter_env \<Rightarrow> article list \<Rightarrow> request \<Rightarrow> (js_error + article) \<times> article list" where
  "publishArticle fw env rows articleData =
     (if \<not> env_store_reachable env then (Inl (Error ''Failed to publish article''), rows)
      else (case store fw rows articleData of
              (Created a, rows') \<Rightarrow> (Inr a, rows')
            | (ValidationFailed, rows') \<Rightarrow> (Inl (Error ''Failed to publish article''), rows')
            | (ServerError e, rows') \<Rightarrow> (Inl (Error ''Failed to publish article''), rows')))"

datatype rewrite_result = Success nat nat | Failure string | Thrown js_error

text \<open>What a run did: its result, the table after it, the number of requests sent to
  the generation backend and the number of articles it posted.\<close>

record rewrite_run =
  rw_outcome :: rewrite_result
  rw_store :: "article list"
  rw_backend_calls :: nat
  rw_posts :: nat

definition rewriteLatest :: "framework \<Rightarrow> rewriter_env \<Rightarrow> article list \<Rightarrow> rewrite_run" where
  "rewriteLatest fw env rows =
     (case fetchLatestArticle env of
        Inl e \<Rightarrow> \<lparr> rw_outcome = Thrown e, rw_store = rows, rw_backend_calls = 0, rw_posts = 0 \<rparr>
      | Inr None \<Rightarrow>
          \<lparr> rw_outcome = Failure ''No articles found'', rw_store = rows,
            rw_backend_calls = 0, rw_posts = 0 \<rparr>
      | Inr (Some article) \<Rightarrow>
          (let searchResults =
                 googleSearch (env_serp_key env) (env_serp env (art_title article))
                   (env_decode env) (env_ddg env (art_title article));
               references = scrapeReferenceArticles (env_web env) searchResults
           in if length references = 0
              then \<lparr> rw_outcome = Failure ''No reference articles found'', rw_store = rows,
                     rw_backend_calls = 0, rw_posts = 0 \<rparr>
              else
                (case rewriteWithLLM (env_provider env) (env_api env) (env_openai env)
                        (art_title article) (art_content article) references of
                   (Inl e, calls) \<Rightarrow>
                     \<lparr> rw_outcome = Thrown e, rw_store = rows, rw_backend_calls = calls, rw_posts = 0 \<rparr>
                 | (Inr rewrittenContent, calls) \<Rightarrow>
                     (case publishArticle fw env rows
                             \<lparr> req_title = Some (art_title article @ '' (Rewritten)''),
                               req_content = Some rewrittenContent,
                               req_source_url = None,
                               req_version = Some ''rewritten'',
                               req_parent_article_id = Some (art_id article),
                               req_references = Some (map ref_url references),
                               req_published_at = None \<rparr> of
                        (Inl e, rows') \<Rightarrow>
                          \<lparr> rw_outcome = Thrown e, rw_store = rows',
                            rw_backend_calls = calls, rw_posts = 1 \<rparr>
                      | (Inr published, rows') \<Rightarrow>
                          \<lparr> rw_outcome = Success (art_id article) (art_id published),
                            rw_store = rows', rw_backend_calls = calls, rw_posts = 1 \<rparr>))))"

section \<open>Sample inputs\<close>

text \<open>A page with a heading and a long article body, served at every address.\<close>

definition sample_dom :: js_dom where
  "sample_dom =
     \<lparr> first_text = (\<lambda>sel. if sel = ''h1'' then Some ''Chatbots for small teams'' else None),
       all_text = (\<lambda>sel. []),
       content_text =
         (\<lambda>sel. if sel = ''article'' then Some (replicate 240 (CHR ''x'')) else None),
       body_text = [] \<rparr>"

definition sample_web :: "string \<Rightarrow> js_dom http" where
  "sample_web url = HttpOk sample_dom"

definition sample_results :: "string list" where
  "sample_results =
     [''https://medium.com/blog/BeyondChats-review'', ''https://example.com/blog/chatbots'']"

text \<open>Two pages with nothing but a \<^verbatim>\<open>title\<close> element.\<close>

definition title_only_dom :: "string \<Rightarrow> js_dom" where
  "title_only_dom t =
     \<lparr> first_text = (\<lambda>sel. if sel = ''title'' then Some t else None),
       all_text = (\<lambda>sel. if sel = ''title'' then t else []),
       content_text = (\<lambda>sel. None),
       body_text = [] \<rparr>"

text \<open>Two scraped references, and backends that answer every request with one text.\<close>

definition sample_references :: "reference list" where
  "sample_references =
     [\<lparr> ref_url = ''https://a.example/blog/x'', ref_title = ''A'', ref_content = ''aaa'' \<rparr>,
      \<lparr> ref_url = ''https://b.example/post/y'', ref_title = ''B'', ref_content = ''bbb'' \<rparr>]"

definition answering :: "string \<Rightarrow> backend" where
  "answering t prompt k = ApiText (Some t)"

text \<open>A backend that answers the first request with a rate limit and then is down.\<close>

definition limited_then_down :: backend where
  "limited_then_down prompt k = (if k = 0 then ApiStatus 429 else ApiNoResponse)"

text \<open>An OpenAI client that is never reached by its one request.\<close>

definition silent_client :: openai_client where
  "silent_client prompt = \<lparr> cl_reply = ApiNoResponse, cl_requests = 1, cl_waits = [] \<rparr>"




text \<open>A framework, a stored source article and a second one, a request that publishes a
  rewrite of the first, and the surroundings of a run that finds one reference.\<close>

definition sample_framework :: framework where
  "sample_framework =
     \<lparr> valid_url = (\<lambda>u. startsWith u ''http''),
       valid_date = (\<lambda>d. True),
       model_slug = (\<lambda>rows title. toLowerCase title),
       str_slug = toLowerCase \<rparr>"

definition sample_article :: article where
  "sample_article =
     \<lparr> art_id = 1, art_title = ''Chatbots'', art_slug = ''chatbots'',
       art_content = ''Chatbots answer questions.'',
       art_source_url = Some ''https://beyondchats.com/blogs/chatbots/'',
       art_version = ''original'', art_is_rewritten = False,
       art_parent_article_id = None, art_references = None, art_published_at = None \<rparr>"

definition sample_env :: rewriter_env where
  "sample_env =
     \<lparr> env_latest = HttpOk sample_article,
       env_serp_key = Some ''key'',
       env_serp = (\<lambda>q. HttpOk (map Some sample_results)),
       env_ddg = (\<lambda>q. NetError),
       env_decode = Some,
       env_web = sample_web,
       env_provider = ''ollama'',
       env_api = answering ''Rewritten body'',
       env_openai = silent_client,
       env_store_reachable = True \<rparr>"

definition sample_rewrite_request :: request where
  "sample_rewrite_request =
     \<lparr> req_title = Some ''Chatbots (Rewritten)'', req_content = Some ''Rewritten body'',
       req_source_url = None, req_version = Some ''rewritten'',
       req_parent_article_id = Some 1,
       req_references = Some [''https://example.com/blog/chatbots''],
       req_published_at = None \<rparr>"

definition sample_other :: article where
  "sample_other = sample_article\<lparr> art_id := 2, art_title := ''Pricing'', art_slug := ''pricing'',
                                 art_source_url := Some ''https://beyondchats.com/blogs/pricing/'' \<rparr>"

text \<open>The same surroundings with a search that finds nothing.\<close>

definition no_results_env :: rewriter_env where
  "no_results_env = sample_env\<lparr> env_serp := (\<lambda>q. HttpOk []) \<rparr>"

text \<open>A site of one listing page with seven article links, one of which leads to a page
  too short to be stored.\<close>

definition seven_links :: "string list" where
  "seven_links =
     [''https://beyondchats.com/blogs/a/'', ''https://beyondchats.com/blogs/b/'',
      ''https://beyondchats.com/blogs/c/'', ''https://beyondchats.com/blogs/d/'',
      ''https://beyondchats.com/blogs/e/'', ''https://beyondchats.com/blogs/f/'',
      ''https://beyondchats.com/blogs/g/'']"

definition short_page :: php_page where
  "short_page = \<lparr> pg_title = Heading ''A short note'', pg_content = Some ''Too short.'',
                   pg_date = None \<rparr>"

definition long_page :: php_page where
  "long_page = \<lparr> pg_title = Heading ''A long read'',
                  pg_content = Some (replicate 120 (CHR ''x'')), pg_date = None \<rparr>"

definition seven_site :: site where
  "seven_site =
     \<lparr> site_max_page = HttpOk 1,
       site_listing = (\<lambda>p. HttpOk \<lparr> selector_hrefs =
                                      (\<lambda>sel. if sel = ''.entries article.entry-card .entry-title a''
                                              then map Some seven_links else []),
                                    regex_hrefs = [] \<rparr>),
       site_article = (\<lambda>url. if url = ''https://beyondchats.com/blogs/d/''
                              then HttpOk short_page else HttpOk long_page),
       site_now = ''2025-12-21 02:00:00'' \<rparr>"

text \<open>The same site, where the first page of the batch has a heading of 256 characters.\<close>

definition long_title_page :: php_page where
  "long_title_page = \<lparr> pg_title = Heading (replicate 256 (CHR ''t'')),
                        pg_content = Some (replicate 120 (CHR ''x'')), pg_date = None \<rparr>"

definition long_title_site :: site where
  "long_title_site =
     seven_site\<lparr> site_article := (\<lambda>url. if url = ''https://beyondchats.com/blogs/c/''
                                           then HttpOk long_title_page else HttpOk long_page) \<rparr>"

section \<open>Facts about the string operations\<close>

lemma str_includes_iff: "str_includes s t \<longleftrightarrow> (\<exists>p q. s = p @ t @ q)"
proof (induction s)
  case Nil
  then show ?case by auto
next
  case (Cons c s)
  show ?case
  proof
    assume "str_includes (c # s) t"
    then consider "prefix t (c # s)" | "str_includes s t" by auto
    then show "\<exists>p q. c # s = p @ t @ q"
    proof cases
      case 1
      then obtain q where "c # s = t @ q" by (auto simp: prefix_def)
      then have "c # s = [] @ t @ q" by simp
      then show ?thesis by blast
    next
      case 2
      with Cons.IH obtain p q where "s = p @ t @ q" by blast
      then have "c # s = (c # p) @ t @ q" by simp
      then show ?thesis by blast
    qed
  next
    assume "\<exists>p q. c # s = p @ t @ q"
    then obtain p q where pq: "c # s = p @ t @ q" by blast
    show "str_includes (c # s) t"
    proof (cases p)
      case Nil
      with pq have "prefix t (c # s)" by (simp add: prefix_def)
      then show ?thesis by simp
    next
      case (Cons d p')
      with pq have "s = p' @ t @ q" by simp
      with Cons.IH have "str_includes s t" by blast
      then show ?thesis by simp
    qed
  qed
qed

lemma str_includes_trans:
  "str_includes s t \<Longrightarrow> str_includes t u \<Longrightarrow> str_includes s u"
proof -
  assume "str_includes s t" and "str_includes t u"
  then obtain p q p' q' where "s = p @ t @ q" and "t = p' @ u @ q'"
    unfolding str_includes_iff by blast
  then have "s = (p @ p') @ u @ (q' @ q)" by simp
  then show ?thesis unfolding str_includes_iff by blast
qed

section \<open>Which URLs can become references\<close>

lemma beyondchats_in_domain: "str_includes ''beyondchats.com'' ''beyondchats''"
  by simp

lemma beyondchats_in_www_domain: "str_includes ''www.beyondchats.com'' ''beyondchats''"
  by simp

lemma isBeyondChatsUrl_iff:
  "isBeyondChatsUrl u \<longleftrightarrow> str_includes (toLowerCase u) ''beyondchats''"
proof (cases "u = []")
  case True
  then show ?thesis by (simp add: isBeyondChatsUrl_def toLowerCase_def)
next
  case False
  have a: "str_includes (toLowerCase u) ''beyondchats''"
    if "str_includes (toLowerCase u) ''beyondchats.com''"
    using str_includes_trans [OF that beyondchats_in_domain] .
  have b: "str_includes (toLowerCase u) ''beyondchats''"
    if "str_includes (toLowerCase u) ''www.beyondchats.com''"
    using str_includes_trans [OF that beyondchats_in_www_domain] .
  from False a b show ?thesis by (auto simp: isBeyondChatsUrl_def Let_def)
qed

lemma scrapeEach_urls: "ref_url ` set (scrapeEach web urls) \<subseteq> set urls"
  by (induction urls) (auto split: sum.splits)

lemma scrapeReferenceArticles_urls:
  assumes "r \<in> set (scrapeReferenceArticles web urls)"
  shows "ref_url r \<in> set urls \<and> \<not> isBeyondChatsUrl (ref_url r) \<and> isArticlePath (ref_url r)"
proof -
  let ?f = "filter (\<lambda>url. url \<noteq> [] \<and> \<not> isBeyondChatsUrl url \<and> isArticlePath url) urls"
  from assms have "r \<in> set (scrapeEach web (take 2 ?f))"
    by (auto simp: scrapeReferenceArticles_def Let_def split: if_splits)
  then have "ref_url r \<in> set (take 2 ?f)"
    using scrapeEach_urls by blast
  then have "ref_url r \<in> set ?f"
    by (rule in_set_takeD)
  then show ?thesis by simp
qed

text \<open>
  C10. \<^verbatim>\<open>isBeyondChatsUrl(u)\<close> holds exactly when the lower-cased URL contains
  \<^verbatim>\<open>beyondchats\<close> anywhere, host or path; and no reference produced by
  \<^verbatim>\<open>scrapeReferenceArticles\<close> has such a URL.
\<close>

theorem beyondchats_mention_excluded:
  "(isBeyondChatsUrl u \<longleftrightarrow> str_includes (toLowerCase u) ''beyondchats'') \<and>
   (\<forall>r \<in> set (scrapeReferenceArticles web urls).
      \<not> str_includes (toLowerCase (ref_url r)) ''beyondchats'')"
  using isBeyondChatsUrl_iff scrapeReferenceArticles_urls by blast

theorem beyondchats_mention_excluded_witness:
  "isBeyondChatsUrl ''https://medium.com/blog/BeyondChats-review'' \<and>
   map ref_url (scrapeReferenceArticles sample_web sample_results) =
     [''https://example.com/blog/chatbots''] \<and>
   \<not> str_includes
        (toLowerCase (ref_url (hd (scrapeReferenceArticles sample_web sample_results))))
        ''beyondchats''"
proof -
  have a: "str_includes (toLowerCase ''https://medium.com/blog/BeyondChats-review'')
             ''beyondchats''"
    by code_simp
  have b: "map ref_url (scrapeReferenceArticles sample_web sample_results) =
             [''https://example.com/blog/chatbots'']"
    by code_simp
  then have "scrapeReferenceArticles sample_web sample_results \<noteq> []"
    by auto
  then have c: "hd (scrapeReferenceArticles sample_web sample_results)
                  \<in> set (scrapeReferenceArticles sample_web sample_results)"
    by simp
  from a b c show ?thesis
    using beyondchats_mention_excluded
            [of "''https://medium.com/blog/BeyondChats-review''" sample_web sample_results]
    by blast
qed

section \<open>Titles are cut at the first separator\<close>

lemma stripSiteName_eq: "stripSiteName t = trim (takeWhile (\<lambda>c. c \<noteq> CHR ''-'' \<and> c \<noteq> CHR ''|'') t)"
  by (simp add: stripSiteName_def splitFirst_def takeWhile_takeWhile conj_commute)

lemma titleLoop_none: "(\<forall>sel \<in> set sels. first_text doc sel = None) \<Longrightarrow> titleLoop doc sels title = title"
  by (induction sels arbitrary: title) auto

lemma extractTitle_fallback:
  assumes "\<forall>sel \<in> set titleSelectors. sel \<noteq> ''title'' \<longrightarrow> first_text doc sel = None"
    and "first_text doc ''title'' = Some t" and "all_text doc ''title'' = t"
  shows "extractTitle doc = stripSiteName (trim t)"
proof -
  have "titleLoop doc titleSelectors [] = stripSiteName (trim t)"
    using assms by (simp add: titleSelectors_def Let_def)
  then show ?thesis using assms(3) by (simp add: extractTitle_def Let_def)
qed

lemma rtrimSpace_Cons:
  "rtrimSpace (c # b) = (if (\<forall>x \<in> set b. isSpace x) \<and> isSpace c then [] else c # rtrimSpace b)"
  by (simp add: rtrimSpace_def dropWhile_append)

lemma trim_rtrim: "trim s = rtrimSpace (dropWhile isSpace s)"
  by (simp add: trim_def rtrimSpace_def)

lemma rtrimSpace_snoc: "isSpace c \<Longrightarrow> rtrimSpace (b @ [c]) = rtrimSpace b"
  by (simp add: rtrimSpace_def)

lemma trim_snoc: 
  assumes "isSpace c" shows "trim (b @ [c]) = trim b"
proof (cases "\<forall>x \<in> set b. isSpace x")
  case True
  then have 1: "dropWhile isSpace b = []" and 2: "dropWhile isSpace (b @ [c]) = []"
    using assms by simp_all
  show ?thesis unfolding trim_def 1 2 by (rule refl)
next
  case False
  then have "dropWhile isSpace (b @ [c]) = dropWhile isSpace b @ [c]"
    by (simp add: dropWhile_append)
  then show ?thesis using assms by (simp add: trim_def)
qed

lemma strip_js_suffix:
  assumes "CHR ''-'' \<notin> set b" "CHR ''|'' \<notin> set b"
  shows "stripSiteName (b @ '' - '' @ site) = trim b"
proof -
  have "takeWhile (\<lambda>c. c \<noteq> CHR ''-'' \<and> c \<noteq> CHR ''|'') (b @ '' - '' @ site) = b @ '' ''"
    using assms by (induction b) auto
  moreover have "trim (b @ '' '') = trim b"
    by (rule trim_snoc) (simp add: isSpace_def)
  ultimately show ?thesis by (simp add: stripSiteName_eq)
qed

lemma sep_not_space: "isSep d \<Longrightarrow> \<not> isSpace d"
  by (auto simp: isSep_def isSpace_def)

lemma matchAt_blank_run:
  assumes "\<forall>c \<in> set w. isSpace c" and "isSep d"
  shows "matchAt (w @ d # r) = tailMatch r"
proof -
  have "dropWhile isSpace (w @ d # r) = d # r"
    using assms sep_not_space by (simp add: dropWhile_append)
  then show ?thesis using assms(2) by (simp add: matchAt_def)
qed

lemma matchAt_body:
  assumes "\<forall>c \<in> set b. \<not> isSep c" and "\<exists>c \<in> set b. \<not> isSpace c"
  shows "matchAt (b @ u) = None"
proof -
  from assms(2) have ne: "dropWhile isSpace b \<noteq> []" by simp
  then obtain x ys where d: "dropWhile isSpace b = x # ys"
    by (cases "dropWhile isSpace b") auto
  then have "x \<in> set (dropWhile isSpace b)" by simp
  then have "x \<in> set b" by (rule set_dropWhileD)
  with assms(1) have "\<not> isSep x" by blast
  moreover have "dropWhile isSpace (b @ u) = x # ys @ u"
    using d assms(2) by (auto simp: dropWhile_append)
  ultimately show ?thesis by (simp add: matchAt_def)
qed

lemma preg_strip:
  assumes "\<forall>c \<in> set b. \<not> isSep c" and "\<forall>c \<in> set w. isSpace c" and "isSep d" and "tailMatch r = Some []"
  shows "pregStripSuffix (b @ w @ d # r) = rtrimSpace b"
  using assms(1)
proof (induction b)
  case Nil
  have "matchAt (w @ d # r) = Some []"
    using matchAt_blank_run [OF assms(2,3)] assms(4) by simp
  then show ?case by (cases "w @ d # r") (auto simp: rtrimSpace_def)
next
  case (Cons c b)
  show ?case
  proof (cases "\<forall>x \<in> set (c # b). isSpace x")
    case True
    then have "\<forall>x \<in> set ((c # b) @ w). isSpace x" using assms(2) by auto
    then have "matchAt (((c # b) @ w) @ d # r) = Some []"
      using matchAt_blank_run [of "(c # b) @ w" d r] assms(3,4) by simp
    moreover have "rtrimSpace (c # b) = []"
      using True by (simp add: rtrimSpace_Cons)
    ultimately show ?thesis by simp
  next
    case False
    then have "matchAt ((c # b) @ (w @ d # r)) = None"
      using matchAt_body [of "c # b"] Cons.prems by blast
    moreover have "rtrimSpace (c # b) = c # rtrimSpace b"
      using False by (auto simp: rtrimSpace_Cons)
    ultimately show ?thesis using Cons by simp
  qed
qed

lemma preg_strip_site:
  assumes "CHR ''-'' \<notin> set b" "CHR ''|'' \<notin> set b" "CHR 0x0A \<notin> set site"
  shows "pregStripSuffix (b @ '' - '' @ site) = rtrimSpace b"
proof -
  have 1: "\<forall>c \<in> set b. \<not> isSep c" using assms by (auto simp: isSep_def)
  have 2: "\<forall>c \<in> set '' ''. isSpace c" by (simp add: isSpace_def)
  have 3: "isSep (CHR ''-'')" by (simp add: isSep_def)
  have "CHR 0x0A \<notin> set (dropWhile isSpace site)"
    using assms(3) set_dropWhileD by fastforce
  then have 4: "tailMatch (CHR '' '' # site) = Some []"
    by (simp add: tailMatch_def Let_def isSpace_def)
  show ?thesis using preg_strip [OF 1 2 3 4] by simp
qed

text \<open>
  What both title heuristics do. They keep the text before the first hyphen or pipe of
  the page title: the rewriter's \<^verbatim>\<open>split('|')[0].split('-')[0].trim()\<close> is the
  trimmed text before the first of the two characters, and it is what a page with only
  a \<^verbatim>\<open>title\<close> element gets; a title body free of both characters, followed by
  \<^verbatim>\<open>" - Site Name"\<close>, is kept in full by the rewriter (trimmed) and by the scraper's
  pattern (right-trimmed, for a site name on one line).
\<close>

theorem title_cut_at_first_separator:
  "stripSiteName t = trim (takeWhile (\<lambda>c. c \<noteq> CHR ''-'' \<and> c \<noteq> CHR ''|'') t) \<and>
   ((\<forall>sel \<in> set titleSelectors. sel \<noteq> ''title'' \<longrightarrow> first_text doc sel = None) \<and>
    first_text doc ''title'' = Some t \<and> all_text doc ''title'' = t
      \<longrightarrow> extractTitle doc = stripSiteName (trim t)) \<and>
   (CHR ''-'' \<notin> set b \<and> CHR ''|'' \<notin> set b
      \<longrightarrow> stripSiteName (b @ '' - '' @ site) = trim b) \<and>
   (CHR ''-'' \<notin> set b \<and> CHR ''|'' \<notin> set b \<and> CHR 0x0A \<notin> set site
      \<longrightarrow> pregStripSuffix (b @ '' - '' @ site) = rtrimSpace b)"
  using stripSiteName_eq extractTitle_fallback strip_js_suffix preg_strip_site by blast

theorem title_cut_at_first_separator_witness:
  "extractTitle (title_only_dom ''Pricing guide - Acme'') = ''Pricing guide'' \<and>
   stripSiteName ''Pricing guide - Acme'' = ''Pricing guide'' \<and>
   pregStripSuffix ''Pricing guide - Acme'' = ''Pricing guide''"
proof -
  let ?t = "''Pricing guide - Acme''" and ?b = "''Pricing guide''" and ?site = "''Acme''"
  have sel: "\<forall>sel \<in> set titleSelectors. sel \<noteq> ''title''
               \<longrightarrow> first_text (title_only_dom ?t) sel = None"
    by (simp add: title_only_dom_def)
  have ft: "first_text (title_only_dom ?t) ''title'' = Some ?t"
    and at: "all_text (title_only_dom ?t) ''title'' = ?t"
    by (simp_all add: title_only_dom_def)
  have b: "CHR ''-'' \<notin> set ?b" "CHR ''|'' \<notin> set ?b" "CHR 0x0A \<notin> set ?site"
    by simp_all
  have tr: "trim ?t = ?t" "trim ?b = ?b" "rtrimSpace ?b = ?b"
    by (simp_all add: trim_def rtrimSpace_def isSpace_def)
  have app: "?b @ '' - '' @ ?site = ?t" by simp
  from title_cut_at_first_separator [of ?t "title_only_dom ?t" ?b ?site] sel ft at b
  have "extractTitle (title_only_dom ?t) = stripSiteName (trim ?t)"
    and "stripSiteName (?b @ '' - '' @ ?site) = trim ?b"
    and "pregStripSuffix (?b @ '' - '' @ ?site) = rtrimSpace ?b"
    by blast+
  then show ?thesis
    unfolding app tr by simp
qed

text \<open>
  C6. The title heuristic is meant to remove the site name and keep the title body, with
  the hyphens and pipes inside it. The code does not: on the page title
  \<^verbatim>\<open>AI-powered chat - Site\<close> the rewriter and the scraper both keep \<^verbatim>\<open>AI\<close>
  only, cutting at the hyphen inside the title body.
\<close>

theorem title_hyphen_counterexample:
  "extractTitle (title_only_dom ''AI-powered chat - Site'') = ''AI'' \<and>
   scrapedTitle (PageTitle ''AI-powered chat - Site'') = Some ''AI''"
  by (simp add: extractTitle_def titleSelectors_def title_only_dom_def stripSiteName_def
      splitFirst_def trim_def isSpace_def scrapedTitle_def php_trim_def isPhpTrimChar_def
      matchAt_def tailMatch_def isSep_def Let_def)

section \<open>Retrying a rate-limited backend\<close>

lemma geminiLoop_calls_lower:
  "i < n \<Longrightarrow> Suc i \<le> run_calls (geminiLoop api p n i ws)"
proof (induction api p n i ws rule: geminiLoop.induct)
  case (1 api prompt retries i waits)
  show ?case
  proof (cases "api prompt i = ApiStatus 429 \<and> i < retries - 1")
    case True
    then have "Suc (Suc i) \<le> run_calls (geminiLoop api prompt retries (Suc i) (waits @ [2 ^ i * 10000]))"
      using 1 by auto
    then show ?thesis using True 1(2) by (subst geminiLoop.simps) simp
  next
    case False
    then show ?thesis using 1(2)
      by (subst geminiLoop.simps) (auto split: api_reply.splits option.splits)
  qed
qed

lemma geminiLoop_calls_upper:
  "i \<le> n \<Longrightarrow> run_calls (geminiLoop api p n i ws) \<le> n"
proof (induction api p n i ws rule: geminiLoop.induct)
  case (1 api prompt retries i waits)
  show ?case
  proof (cases "i < retries \<and> api prompt i = ApiStatus 429 \<and> i < retries - 1")
    case True
    then have "run_calls (geminiLoop api prompt retries (Suc i) (waits @ [2 ^ i * 10000])) \<le> retries"
      using 1 by auto
    then show ?thesis using True by (subst geminiLoop.simps) simp
  next
    case False
    then show ?thesis using 1(2)
      by (subst geminiLoop.simps) (auto split: api_reply.splits option.splits)
  qed
qed

lemma geminiLoop_waits:
  "run_waits (geminiLoop api p n i ws) =
     ws @ map backoff [i..<run_calls (geminiLoop api p n i ws) - 1]"
proof (induction api p n i ws rule: geminiLoop.induct)
  case (1 api prompt retries i waits)
  show ?case
  proof (cases "i < retries \<and> api prompt i = ApiStatus 429 \<and> i < retries - 1")
    case True
    let ?r = "geminiLoop api prompt retries (Suc i) (waits @ [2 ^ i * 10000])"
    have eq: "geminiLoop api prompt retries i waits = ?r"
      using True by (subst geminiLoop.simps) simp
    have ih: "run_waits ?r = (waits @ [2 ^ i * 10000]) @ map backoff [Suc i..<run_calls ?r - 1]"
      using 1 True by auto
    have "Suc (Suc i) \<le> run_calls ?r"
      using True by (intro geminiLoop_calls_lower) auto
    then have "[i..<run_calls ?r - 1] = i # [Suc i..<run_calls ?r - 1]"
      by (simp add: upt_rec)
    with ih show ?thesis unfolding eq by (simp add: backoff_def)
  next
    case False
    then show ?thesis
      by (subst (1 2) geminiLoop.simps) (auto split: api_reply.splits option.splits)
  qed
qed

lemma geminiLoop_rate_limited:
  "i < n \<Longrightarrow> (\<forall>k<n. api p k = ApiStatus 429) \<Longrightarrow>
   run_result (geminiLoop api p n i ws) = Threw (HttpError 429) \<and>
   run_calls (geminiLoop api p n i ws) = n"
proof (induction api p n i ws rule: geminiLoop.induct)
  case (1 api prompt retries i waits)
  show ?case
  proof (cases "i < retries - 1")
    case True
    then show ?thesis using 1 by (subst (1 2) geminiLoop.simps) auto
  next
    case False
    with 1(2) have "Suc i = retries" by simp
    then show ?thesis using 1(2,3) False by (subst (1 2) geminiLoop.simps) auto
  qed
qed

lemma backoff_increasing: "sorted_wrt (<) (map backoff [i..<j])"
  by (simp add: sorted_wrt_map backoff_def sorted_wrt_iff_nth_less)


lemma geminiLoop_first_other:
  "i \<le> j \<Longrightarrow> j < n \<Longrightarrow> (\<forall>k<j. api p k = ApiStatus 429) \<Longrightarrow> api p j \<noteq> ApiStatus 429 \<Longrightarrow>
   run_calls (geminiLoop api p n i ws) = Suc j \<and>
   run_result (geminiLoop api p n i ws) =
     (case api p j of
        ApiText (Some t) \<Rightarrow>
          if t \<noteq> [] then Returned (trim t)
          else Threw (Error ''Invalid response from Google Gemini API'')
      | ApiText None \<Rightarrow> Threw (Error ''Invalid response from Google Gemini API'')
      | ApiStatus st \<Rightarrow> Threw (HttpError st)
      | ApiNoResponse \<Rightarrow> Threw RequestFailed)"
proof (induction api p n i ws rule: geminiLoop.induct)
  case (1 api prompt retries i waits)
  show ?case
  proof (cases "i = j")
    case True
    then show ?thesis using 1(2-)
      by (subst (1 2) geminiLoop.simps) (auto split: api_reply.splits option.splits)
  next
    case False
    then have lt: "i < j" using 1(2) by simp
    then have "api prompt i = ApiStatus 429" "i < retries - 1" "i < retries" using 1(3,4) by auto
    then show ?thesis using 1 lt by (subst (1 2) geminiLoop.simps) auto
  qed
qed

text \<open>
  C3, as the code has it. The Gemini call with \<open>retries > 0\<close> (3 at the call site)
  is decided by the first answer that is not a 429. When there is none among the first
  \<open>retries\<close> answers, it gives up with the 429 error after exactly \<open>retries\<close> requests.
  When it is answer \<open>j\<close>, the call ends at once after \<open>j + 1\<close> requests: with the
  trimmed text, or throwing the invalid-response error, the error response, or the
  failed request, none of which is retried. In every case the delays slept are
  \<open>10000 * 2 ^ k\<close> for \<open>k\<close> below the number of requests less one, so they strictly
  increase. The Ollama call sends a single request, sleeps nothing, and throws every
  failure, a 429 included. The OpenAI call makes one call to its client and adds no
  request and no delay to what the client does; it returns the trimmed text or throws
  the error the client ends with. The configured provider selects among the three, the
  Gemini call with its 3 retries.
\<close>

theorem gemini_retries_others_do_not:
  "(let G = rewriteWithGoogleGemini api prompt retries in
     (0 < retries \<longrightarrow> 1 \<le> run_calls G \<and> run_calls G \<le> retries) \<and>
     run_waits G = map backoff [0..<run_calls G - 1] \<and>
     sorted_wrt (<) (run_waits G) \<and>
     (0 < retries \<and> (\<forall>k<retries. api prompt k = ApiStatus 429)
        \<longrightarrow> run_result G = Threw (HttpError 429) \<and> run_calls G = retries) \<and>
     (j < retries \<and> (\<forall>k<j. api prompt k = ApiStatus 429) \<and> api prompt j \<noteq> ApiStatus 429
        \<longrightarrow> run_calls G = Suc j \<and>
            run_result G =
              (case api prompt j of
                 ApiText (Some t) \<Rightarrow>
                   if t \<noteq> [] then Returned (trim t)
                   else Threw (Error ''Invalid response from Google Gemini API'')
               | ApiText None \<Rightarrow> Threw (Error ''Invalid response from Google Gemini API'')
               | ApiStatus st \<Rightarrow> Threw (HttpError st)
               | ApiNoResponse \<Rightarrow> Threw RequestFailed))) \<and>
   run_calls (rewriteWithOllama api prompt) = 1 \<and>
   run_waits (rewriteWithOllama api prompt) = [] \<and>
   run_result (rewriteWithOllama api prompt) =
     (case api prompt 0 of
        ApiText (Some t) \<Rightarrow> Returned (trim t)
      | ApiText None \<Rightarrow> Threw TypeError
      | ApiStatus st \<Rightarrow> Threw (HttpError st)
      | ApiNoResponse \<Rightarrow> Threw RequestFailed) \<and>
   run_calls (rewriteWithOpenAI openai prompt) = cl_requests (openai prompt) \<and>
   run_waits (rewriteWithOpenAI openai prompt) = cl_waits (openai prompt) \<and>
   run_result (rewriteWithOpenAI openai prompt) =
     (case cl_reply (openai prompt) of
        ApiText (Some t) \<Rightarrow> Returned (trim t)
      | ApiText None \<Rightarrow> Threw TypeError
      | ApiStatus st \<Rightarrow> Threw (HttpError st)
      | ApiNoResponse \<Rightarrow> Threw RequestFailed) \<and>
   generate ''google'' api openai prompt = rewriteWithGoogleGemini api prompt 3 \<and>
   generate ''ollama'' api openai prompt = rewriteWithOllama api prompt \<and>
   generate ''openai'' api openai prompt = rewriteWithOpenAI openai prompt"
proof -
  let ?G = "geminiLoop api prompt retries 0 []"
  have w: "run_waits ?G = map backoff [0..<run_calls ?G - 1]"
    using geminiLoop_waits [of api prompt retries 0 "[]"] by simp
  have c: "0 < retries \<longrightarrow> 1 \<le> run_calls ?G \<and> run_calls ?G \<le> retries"
    using geminiLoop_calls_lower [of 0 retries api prompt "[]"]
      geminiLoop_calls_upper [of 0 retries api prompt "[]"] by simp
  have s: "sorted_wrt (<) (run_waits ?G)"
    unfolding w by (rule backoff_increasing)
  have r: "0 < retries \<and> (\<forall>k<retries. api prompt k = ApiStatus 429)
        \<longrightarrow> run_result ?G = Threw (HttpError 429) \<and> run_calls ?G = retries"
    using geminiLoop_rate_limited [of 0 retries api prompt "[]"] by blast
  have o: "j < retries \<and> (\<forall>k<j. api prompt k = ApiStatus 429) \<and> api prompt j \<noteq> ApiStatus 429
        \<longrightarrow> run_calls ?G = Suc j \<and>
            run_result ?G =
              (case api prompt j of
                 ApiText (Some t) \<Rightarrow>
                   if t \<noteq> [] then Returned (trim t)
                   else Threw (Error ''Invalid response from Google Gemini API'')
               | ApiText None \<Rightarrow> Threw (Error ''Invalid response from Google Gemini API'')
               | ApiStatus st \<Rightarrow> Threw (HttpError st)
               | ApiNoResponse \<Rightarrow> Threw RequestFailed)"
    using geminiLoop_first_other [of 0 j retries api prompt "[]"] by blast
  have ol: "run_calls (rewriteWithOllama api prompt) = 1"
    "run_waits (rewriteWithOllama api prompt) = []"
    "run_result (rewriteWithOllama api prompt) =
     (case api prompt 0 of
        ApiText (Some t) \<Rightarrow> Returned (trim t)
      | ApiText None \<Rightarrow> Threw TypeError
      | ApiStatus st \<Rightarrow> Threw (HttpError st)
      | ApiNoResponse \<Rightarrow> Threw RequestFailed)"
    by (simp_all add: rewriteWithOllama_def)
  have op: "run_calls (rewriteWithOpenAI openai prompt) = cl_requests (openai prompt)"
    "run_waits (rewriteWithOpenAI openai prompt) = cl_waits (openai prompt)"
    "run_result (rewriteWithOpenAI openai prompt) =
     (case cl_reply (openai prompt) of
        ApiText (Some t) \<Rightarrow> Returned (trim t)
      | ApiText None \<Rightarrow> Threw TypeError
      | ApiStatus st \<Rightarrow> Threw (HttpError st)
      | ApiNoResponse \<Rightarrow> Threw RequestFailed)"
    by (simp_all add: rewriteWithOpenAI_def Let_def)
  have d: "generate ''google'' api openai prompt = geminiLoop api prompt 3 0 []"
    "generate ''ollama'' api openai prompt = rewriteWithOllama api prompt"
    "generate ''openai'' api openai prompt = rewriteWithOpenAI openai prompt"
    by (simp_all add: generate_def rewriteWithGoogleGemini_def)
  from w c s r o ol op d show ?thesis
    unfolding Let_def rewriteWithGoogleGemini_def
    by blast
qed

theorem gemini_retries_others_do_not_witness:
  "run_result (generate ''google'' (\<lambda>p k. ApiStatus 429) silent_client []) = Threw (HttpError 429) \<and>
   run_calls (generate ''google'' (\<lambda>p k. ApiStatus 429) silent_client []) = 3 \<and>
   run_waits (generate ''google'' (\<lambda>p k. ApiStatus 429) silent_client []) = [10000, 20000] \<and>
   run_result (generate ''google'' limited_then_down silent_client []) = Threw RequestFailed \<and>
   run_calls (generate ''google'' limited_then_down silent_client []) = 2 \<and>
   run_waits (generate ''google'' limited_then_down silent_client []) = [10000]"
proof -
  let ?api = "\<lambda>(p::string) (k::nat). ApiStatus 429"
  let ?G = "rewriteWithGoogleGemini ?api [] 3"
  let ?H = "rewriteWithGoogleGemini limited_then_down [] 3"
  have g: "generate ''google'' ?api silent_client [] = ?G"
    "generate ''google'' limited_then_down silent_client [] = ?H"
    by (simp_all add: generate_def)
  from gemini_retries_others_do_not [of ?api "[]" 3 0 silent_client]
  have "run_waits ?G = map backoff [0..<run_calls ?G - 1]"
    and "run_result ?G = Threw (HttpError 429) \<and> run_calls ?G = 3"
    unfolding Let_def by simp_all
  moreover
  have "\<forall>k<1. limited_then_down [] k = ApiStatus 429"
    "limited_then_down [] 1 \<noteq> ApiStatus 429" "limited_then_down [] 1 = ApiNoResponse"
    by (simp_all add: limited_then_down_def)
  with gemini_retries_others_do_not [of limited_then_down "[]" 3 1 silent_client]
  have "run_waits ?H = map backoff [0..<run_calls ?H - 1]"
    and "run_calls ?H = Suc 1 \<and> run_result ?H = Threw RequestFailed"
    unfolding Let_def by simp_all
  ultimately show ?thesis unfolding g by (simp add: backoff_def upt_rec)
qed

text \<open>C3 as stated fails for the Ollama backend: a rate-limit answer is thrown after one
  request, with no delay and no retry.\<close>

theorem ollama_rate_limit_counterexample:
  "run_result (generate ''ollama'' (\<lambda>p k. ApiStatus 429) silent_client []) = Threw (HttpError 429) \<and>
   run_calls (generate ''ollama'' (\<lambda>p k. ApiStatus 429) silent_client []) = 1 \<and>
   run_waits (generate ''ollama'' (\<lambda>p k. ApiStatus 429) silent_client []) = []"
  by (simp add: generate_def rewriteWithOllama_def)

section \<open>The references section\<close>

lemma length_mapIndexFrom: "length (mapIndexFrom k f xs) = length xs"
  by (induction xs arbitrary: k) auto

lemma nth_mapIndexFrom: "i < length xs \<Longrightarrow> mapIndexFrom k f xs ! i = f (k + i) (xs ! i)"
proof (induction xs arbitrary: k i)
  case Nil
  then show ?case by simp
next
  case (Cons x xs)
  then show ?case by (cases i) auto
qed

lemma str_includes_join: "x \<in> set xs \<Longrightarrow> str_includes (join sep xs) x"
proof (induction sep xs rule: join.induct)
  case (1 sep)
  then show ?case by simp
next
  case (2 sep y)
  then have "join sep [y] = [] @ x @ []" by simp
  then show ?case unfolding str_includes_iff by blast
next
  case (3 sep y z ys)
  show ?case
  proof (cases "x = y")
    case True
    then have "join sep (y # z # ys) = [] @ x @ (sep @ join sep (z # ys))" by simp
    then show ?thesis unfolding str_includes_iff by blast
  next
    case False
    with 3 have "str_includes (join sep (z # ys)) x" by simp
    then obtain p q where "join sep (z # ys) = p @ x @ q" unfolding str_includes_iff by blast
    then have "join sep (y # z # ys) = (y @ sep @ p) @ x @ q" by simp
    then show ?thesis unfolding str_includes_iff by blast
  qed
qed

lemma referenceLines_length: "length (referenceLines refs) = length refs"
  by (simp add: referenceLines_def mapIndex_def length_mapIndexFrom)

lemma referenceLines_nth:
  "i < length refs \<Longrightarrow>
   referenceLines refs ! i =
     show_nat (i + 1) @ ''. ['' @ ref_title (refs ! i) @ ''](''  @ ref_url (refs ! i) @ '')''"
  by (simp add: referenceLines_def mapIndex_def nth_mapIndexFrom)

lemma referenceLines_cite:
  assumes "r \<in> set refs"
  shows "str_includes (join ''\<newline>'' (referenceLines refs)) (ref_url r)"
proof -
  from assms obtain i where i: "i < length refs" "refs ! i = r"
    by (auto simp: in_set_conv_nth)
  let ?l = "referenceLines refs ! i"
  have "?l \<in> set (referenceLines refs)"
    using i by (simp add: referenceLines_length)
  then have a: "str_includes (join ''\<newline>'' (referenceLines refs)) ?l"
    by (rule str_includes_join)
  have "?l = (show_nat (i + 1) @ ''. ['' @ ref_title r @ '']('') @ ref_url r @ '')''"
    using i by (simp add: referenceLines_nth)
  then have b: "str_includes ?l (ref_url r)"
    unfolding str_includes_iff by blast
  from a b show ?thesis by (rule str_includes_trans)
qed

text \<open>
  What the post-validation does. When the backend returns a text, \<^verbatim>\<open>rewriteWithLLM\<close>
  returns it unchanged if its lower-cased form contains the letters \<^verbatim>\<open>references\<close>
  anywhere; otherwise it returns the text followed by the heading \<^verbatim>\<open>## References\<close>
  and one numbered line per supplied reference, in the supplied order, line \<open>i\<close> citing
  the title and URL of reference \<open>i\<close>, so that every supplied URL occurs in the section.
\<close>

theorem references_appended_only_when_missing:
  "run_result (generate provider api openai (buildPrompt title content refs)) = Returned t \<longrightarrow>
     (str_includes (toLowerCase t) ''references''
        \<longrightarrow> fst (rewriteWithLLM provider api openai title content refs) = Inr t) \<and>
     (\<not> str_includes (toLowerCase t) ''references''
        \<longrightarrow> fst (rewriteWithLLM provider api openai title content refs) =
              Inr (t @ ''\<newline>\<newline>## References\<newline>\<newline>'' @ join ''\<newline>'' (referenceLines refs)) \<and>
            length (referenceLines refs) = length refs \<and>
            (\<forall>i<length refs.
               referenceLines refs ! i =
                 show_nat (i + 1) @ ''. ['' @ ref_title (refs ! i) @ ''](''  @ ref_url (refs ! i) @ '')'') \<and>
            (\<forall>r \<in> set refs. str_includes (join ''\<newline>'' (referenceLines refs)) (ref_url r)))"
  using referenceLines_length referenceLines_nth referenceLines_cite
  by (simp add: rewriteWithLLM_def Let_def ensureReferences_def)

theorem references_appended_only_when_missing_witness:
  "fst (rewriteWithLLM ''ollama'' (answering ''Rewritten body'') silent_client ''T'' ''C'' sample_references) =
     Inr ''Rewritten body\<newline>\<newline>## References\<newline>\<newline>1. [A](https://a.example/blog/x)\<newline>2. [B](https://b.example/post/y)''"
proof -
  let ?api = "answering ''Rewritten body''"
  have run: "run_result (generate ''ollama'' ?api silent_client (buildPrompt ''T'' ''C'' sample_references)) =
               Returned ''Rewritten body''"
    by (simp add: generate_def rewriteWithOllama_def answering_def trim_def
        isSpace_def)
  have missing: "\<not> str_includes (toLowerCase ''Rewritten body'') ''references''"
    by code_simp
  have lines: "referenceLines sample_references =
                 [''1. [A](https://a.example/blog/x)'', ''2. [B](https://b.example/post/y)'']"
    by code_simp
  from references_appended_only_when_missing
         [of "''ollama''" ?api silent_client "''T''" "''C''" sample_references
            "''Rewritten body''"]
       run missing
  have "fst (rewriteWithLLM ''ollama'' ?api silent_client ''T'' ''C'' sample_references) =
          Inr (''Rewritten body'' @ ''\<newline>\<newline>## References\<newline>\<newline>'' @
               join ''\<newline>'' (referenceLines sample_references))"
    by blast
  then show ?thesis unfolding lines by simp
qed

text \<open>
  C1. The final body is to carry a references section with the supplied URLs whatever
  the backend returned. The code does not see to it: it takes any occurrence of the
  letters \<^verbatim>\<open>references\<close> in the returned text for such a section. A text that only
  mentions references, or only the word \<^verbatim>\<open>preferences\<close>, is returned as it is, with
  no heading and none of the supplied URLs.
\<close>

theorem references_mentioned_counterexample:
  "fst (rewriteWithLLM ''ollama'' (answering ''See the references.'') silent_client
          ''T'' ''C'' sample_references) = Inr ''See the references.'' \<and>
   fst (rewriteWithLLM ''ollama'' (answering ''Set your preferences.'') silent_client
          ''T'' ''C'' sample_references) = Inr ''Set your preferences.'' \<and>
   map ref_url sample_references = [''https://a.example/blog/x'', ''https://b.example/post/y''] \<and>
   \<not> str_includes ''See the references.'' ''https://a.example/blog/x'' \<and>
   \<not> str_includes ''Set your preferences.'' ''https://a.example/blog/x''"
proof -
  have "str_includes (toLowerCase ''See the references.'') ''references''"
    "str_includes (toLowerCase ''Set your preferences.'') ''references''"
    by code_simp+
  then show ?thesis
    by (simp add: rewriteWithLLM_def generate_def rewriteWithOllama_def
        answering_def trim_def isSpace_def ensureReferences_def sample_references_def)
qed

section \<open>Search results\<close>

































lemma keepFirstFrom_distinct:
  "distinct held \<Longrightarrow>
   distinct (keepFirstFrom held xs) \<and> set (keepFirstFrom held xs) = set held \<union> set xs"
  by (induction xs arbitrary: held) auto




section \<open>Creating an article marks its parent and nothing else\<close>

lemma nextId_above: "a \<in> set rows \<Longrightarrow> art_id a < nextId rows"
  by (induction rows) (auto simp: nextId_def)

lemma nextId_fresh: "\<not> idExists rows (nextId rows)"
  using nextId_above by (fastforce simp: idExists_def)

lemma insertArticle_Inr:
  "insertArticle rows a0 = Inr (a, rows') \<Longrightarrow>
   a = a0\<lparr>art_id := nextId rows\<rparr> \<and> rows' = rows @ [a]"
  by (auto simp: insertArticle_def Let_def split: if_splits)

lemma markRewritten_snoc:
  "art_id a \<noteq> p \<Longrightarrow> markRewritten p (rows @ [a]) = markRewritten p rows @ [a]"
  by (simp add: markRewritten_def)

lemma store_cases:
  assumes "store fw rows req = (resp, rows')"
  shows "(resp = ValidationFailed \<and> \<not> validates fw rows req \<and> rows' = rows) \<or>
         (\<exists>e. resp = ServerError e \<and> rows' = rows) \<or>
         (\<exists>a. resp = Created a \<and> validates fw rows req \<and>
              art_id a = nextId rows \<and> art_title a = the (req_title req) \<and>
              art_version a = the (req_version req) \<and>
              art_parent_article_id a = req_parent_article_id req \<and>
              art_is_rewritten a = False \<and>
              rows' = (case req_parent_article_id req of
                         None \<Rightarrow> rows
                       | Some p \<Rightarrow> if req_version req = Some ''rewritten'' \<and> p \<noteq> 0
                                   then markRewritten p rows else rows) @ [a])"
proof (cases "validates fw rows req")
  case False
  then show ?thesis using assms by (simp add: store_def)
next
  case True
  let ?a0 = "\<lparr> art_id = 0, art_title = the (req_title req),
                 art_slug = model_slug fw rows (the (req_title req)),
                 art_content = the (req_content req),
                 art_source_url = req_source_url req,
                 art_version = the (req_version req),
                 art_is_rewritten = False,
                 art_parent_article_id = req_parent_article_id req,
                 art_references = req_references req,
                 art_published_at = req_published_at req \<rparr>"
  show ?thesis
  proof (cases "insertArticle rows ?a0")
    case (Inl e)
    then have "store fw rows req = (ServerError e, rows)"
      using True by (simp add: store_def Let_def)
    then show ?thesis using assms by auto
  next
    case (Inr pair)
    obtain a rs where pair: "pair = (a, rs)" by (cases pair)
    from Inr pair have a: "a = ?a0\<lparr>art_id := nextId rows\<rparr>" and rs: "rs = rows @ [a]"
      using insertArticle_Inr by blast+
    have v: "req_version req = Some (the (req_version req))"
      using True by (auto simp: validates_def split: option.splits)
    show ?thesis
    proof (cases "req_parent_article_id req")
      case None
      then show ?thesis using assms True Inr pair a rs
        by (auto simp: store_def Let_def)
    next
      case (Some p)
      then have ex: "idExists rows p" using True by (simp add: validates_def)
      then have ne: "art_id a \<noteq> p" using a nextId_fresh [of rows] by auto
      have ex': "idExists (rows @ [a]) p" using ex by (simp add: idExists_def)
      show ?thesis
      proof (cases "req_version req = Some ''rewritten'' \<and> p \<noteq> 0")
        case yes: True
        then have "store fw rows req = (Created a, markRewritten p (rows @ [a]))"
          using True Inr pair rs a Some ex' by (simp add: store_def Let_def)
        then show ?thesis using assms Some yes True a markRewritten_snoc [OF ne] by auto
      next
        case no: False
        then have "store fw rows req = (Created a, rows @ [a])"
          using True Inr pair rs a Some ex' v by (auto simp: store_def Let_def)
        then show ?thesis using assms Some no True a by auto
      qed
    qed
  qed
qed


lemma markRewritten_length: "length (markRewritten p rows) = length rows"
  by (simp add: markRewritten_def)

lemma markRewritten_nth:
  "i < length rows \<Longrightarrow>
   markRewritten p rows ! i =
     (if art_id (rows ! i) = p then (rows ! i)\<lparr>art_is_rewritten := True\<rparr> else rows ! i)"
  by (simp add: markRewritten_def)

text \<open>
  C7. Whatever the answer of \<^verbatim>\<open>store\<close>, a request that creates nothing leaves the
  table as it was. A created article is appended under a key no existing row has, and is
  itself not marked. When the request has version \<^verbatim>\<open>rewritten\<close> and a parent key, the
  parent exists and every existing row is unchanged, except that the rows with the
  parent's key have \<^verbatim>\<open>is_rewritten\<close> set. With version \<^verbatim>\<open>original\<close> or no parent
  key, the existing rows are exactly as before.
\<close>

theorem store_marks_only_the_parent:
  "store fw rows req = (resp, rows') \<Longrightarrow>
     ((\<forall>a. resp \<noteq> Created a) \<longrightarrow> rows' = rows) \<and>
     (\<forall>a. resp = Created a \<longrightarrow>
           length rows' = Suc (length rows) \<and> rows' ! length rows = a \<and>
           \<not> idExists rows (art_id a) \<and> \<not> art_is_rewritten a) \<and>
     (\<forall>a p. resp = Created a \<and> req_version req = Some ''rewritten'' \<and>
           req_parent_article_id req = Some p \<and> p \<noteq> 0 \<longrightarrow>
           idExists rows p \<and>
           (\<forall>i<length rows.
              rows' ! i = (if art_id (rows ! i) = p
                           then (rows ! i)\<lparr>art_is_rewritten := True\<rparr> else rows ! i))) \<and>
     (req_version req = Some ''original'' \<or> req_parent_article_id req = None
           \<longrightarrow> take (length rows) rows' = rows)"
proof -
  assume "store fw rows req = (resp, rows')"
  note c = store_cases [OF this]
  have 1: "(\<forall>a. resp \<noteq> Created a) \<longrightarrow> rows' = rows"
    using c by auto
  have 2: "\<forall>a. resp = Created a \<longrightarrow>
           length rows' = Suc (length rows) \<and> rows' ! length rows = a \<and>
           \<not> idExists rows (art_id a) \<and> \<not> art_is_rewritten a"
    using c nextId_fresh [of rows]
    by (auto simp: markRewritten_length nth_append split: option.splits)
  have 3: "\<forall>a p. resp = Created a \<and> req_version req = Some ''rewritten'' \<and>
           req_parent_article_id req = Some p \<and> p \<noteq> 0 \<longrightarrow>
           idExists rows p \<and>
           (\<forall>i<length rows.
              rows' ! i = (if art_id (rows ! i) = p
                           then (rows ! i)\<lparr>art_is_rewritten := True\<rparr> else rows ! i))"
    using c
    by (auto simp: markRewritten_length markRewritten_nth nth_append validates_def)
  have 4: "req_version req = Some ''original'' \<or> req_parent_article_id req = None
           \<longrightarrow> take (length rows) rows' = rows"
    using c by (auto split: option.splits)
  from 1 2 3 4 show ?thesis by blast
qed

theorem store_marks_only_the_parent_witness:
  "fst (store sample_framework [sample_article, sample_other] sample_rewrite_request) =
     Created \<lparr> art_id = 3, art_title = ''Chatbots (Rewritten)'',
               art_slug = ''chatbots (rewritten)'', art_content = ''Rewritten body'',
               art_source_url = None, art_version = ''rewritten'', art_is_rewritten = False,
               art_parent_article_id = Some 1,
               art_references = Some [''https://example.com/blog/chatbots''],
               art_published_at = None \<rparr> \<and>
   snd (store sample_framework [sample_article, sample_other] sample_rewrite_request) ! 0 =
     sample_article\<lparr>art_is_rewritten := True\<rparr> \<and>
   snd (store sample_framework [sample_article, sample_other] sample_rewrite_request) ! 1 =
     sample_other"
proof -
  let ?rows = "[sample_article, sample_other]"
  let ?a = "\<lparr> art_id = 3, art_title = ''Chatbots (Rewritten)'',
               art_slug = ''chatbots (rewritten)'', art_content = ''Rewritten body'',
               art_source_url = None, art_version = ''rewritten'', art_is_rewritten = False,
               art_parent_article_id = Some 1,
               art_references = Some [''https://example.com/blog/chatbots''],
               art_published_at = None \<rparr>"
  obtain rows' where s: "store sample_framework ?rows sample_rewrite_request = (Created ?a, rows')"
  proof -
    have "fst (store sample_framework ?rows sample_rewrite_request) = Created ?a"
      by code_simp
    then show ?thesis using that by (cases "store sample_framework ?rows sample_rewrite_request") auto
  qed
  have v: "req_version sample_rewrite_request = Some ''rewritten''"
    "req_parent_article_id sample_rewrite_request = Some 1"
    by (simp_all add: sample_rewrite_request_def)
  from store_marks_only_the_parent [OF s] v
  have "\<forall>i<length ?rows.
          rows' ! i = (if art_id (?rows ! i) = 1
                       then (?rows ! i)\<lparr>art_is_rewritten := True\<rparr> else ?rows ! i)"
    by blast
  then have "rows' ! 0 = sample_article\<lparr>art_is_rewritten := True\<rparr>" "rows' ! 1 = sample_other"
    by (auto simp: sample_article_def sample_other_def)
  then show ?thesis using s by simp
qed

section \<open>A run of the rewriter\<close>

text \<open>
  C2. When an article was fetched and no reference could be scraped for it, the run
  returns the failure \<^verbatim>\<open>No reference articles found\<close>, has sent no request to a
  generation backend, has posted nothing, and leaves the table, and so the source
  article's \<^verbatim>\<open>is_rewritten\<close> flag, as it was.
\<close>

theorem no_references_no_rewrite:
  "env_latest env = HttpOk article \<Longrightarrow>
   scrapeReferenceArticles (env_web env)
     (googleSearch (env_serp_key env) (env_serp env (art_title article)) (env_decode env)
        (env_ddg env (art_title article))) = [] \<Longrightarrow>
   rewriteLatest fw env rows =
     \<lparr> rw_outcome = Failure ''No reference articles found'', rw_store = rows,
       rw_backend_calls = 0, rw_posts = 0 \<rparr>"
  by (simp add: rewriteLatest_def fetchLatestArticle_def Let_def)

theorem no_references_no_rewrite_witness:
  "rewriteLatest sample_framework no_results_env [sample_article] =
     \<lparr> rw_outcome = Failure ''No reference articles found'', rw_store = [sample_article],
       rw_backend_calls = 0, rw_posts = 0 \<rparr> \<and>
   art_is_rewritten (hd (rw_store (rewriteLatest sample_framework no_results_env [sample_article]))) = False"
proof -
  have l: "env_latest no_results_env = HttpOk sample_article"
    by (simp add: no_results_env_def sample_env_def)
  have r: "scrapeReferenceArticles (env_web no_results_env)
     (googleSearch (env_serp_key no_results_env)
        (env_serp no_results_env (art_title sample_article)) (env_decode no_results_env)
        (env_ddg no_results_env (art_title sample_article))) = []"
    by (simp add: no_results_env_def sample_env_def googleSearch_def searchWithSerpAPI_def
        scrapeReferenceArticles_def)
  show ?thesis
    using no_references_no_rewrite [OF l r, of sample_framework "[sample_article]"]
    by (simp add: sample_article_def)
qed

lemma publishArticle_cases:
  assumes "publishArticle fw env rows req = (res, rows')"
  shows "(\<exists>e. res = Inl e \<and> rows' = rows) \<or>
         (\<exists>a. res = Inr a \<and> store fw rows req = (Created a, rows'))"
proof (cases "env_store_reachable env")
  case False
  then show ?thesis using assms by (auto simp: publishArticle_def)
next
  case True
  obtain resp rs where s: "store fw rows req = (resp, rs)"
    by (cases "store fw rows req")
  from store_cases [OF s] show ?thesis
    using assms True s by (cases resp) (auto simp: publishArticle_def)
qed

lemma markRewritten_titles:
  "map art_title (markRewritten p rows) = map art_title rows"
  "map art_id (markRewritten p rows) = map art_id rows"
  by (simp_all add: markRewritten_def comp_def)

lemma store_titles:
  assumes "store fw rows req = (resp, rows')"
  shows "map art_title (take (length rows) rows') = map art_title rows \<and>
         map art_id (take (length rows) rows') = map art_id rows"
  using store_cases [OF assms]
  by (auto simp: markRewritten_titles markRewritten_length split: option.splits)

text \<open>
  C9. No run changes the title or the key of an existing row. A successful run has
  fetched a source article, appended exactly one row, and that row has the key the run
  reports, the source's title followed by \<^verbatim>\<open> (Rewritten)\<close>, and the source as parent.
\<close>

theorem rewritten_title_is_suffixed:
  "map art_title (take (length rows) (rw_store (rewriteLatest fw env rows))) = map art_title rows \<and>
   map art_id (take (length rows) (rw_store (rewriteLatest fw env rows))) = map art_id rows \<and>
   (rw_outcome (rewriteLatest fw env rows) = Success oid nid \<longrightarrow>
      (\<exists>src. env_latest env = HttpOk src \<and> oid = art_id src \<and>
         length (rw_store (rewriteLatest fw env rows)) = Suc (length rows) \<and>
         art_id (last (rw_store (rewriteLatest fw env rows))) = nid \<and>
         art_title (last (rw_store (rewriteLatest fw env rows))) = art_title src @ '' (Rewritten)'' \<and>
         art_parent_article_id (last (rw_store (rewriteLatest fw env rows))) = Some oid))"
proof (cases "fetchLatestArticle env")
  case (Inl e)
  then show ?thesis by (simp add: rewriteLatest_def)
next
  case (Inr found)
  show ?thesis
  proof (cases found)
    case None
    then show ?thesis using Inr by (simp add: rewriteLatest_def)
  next
    case (Some src)
    then have latest: "env_latest env = HttpOk src"
      using Inr by (auto simp: fetchLatestArticle_def split: http.splits if_splits)
    let ?refs = "scrapeReferenceArticles (env_web env)
       (googleSearch (env_serp_key env) (env_serp env (art_title src)) (env_decode env)
          (env_ddg env (art_title src)))"
    show ?thesis
    proof (cases "?refs = []")
      case True
      then show ?thesis using Inr Some by (simp add: rewriteLatest_def Let_def)
    next
      case False
      obtain res calls where llm:
        "rewriteWithLLM (env_provider env) (env_api env) (env_openai env) (art_title src)
           (art_content src) ?refs
           = (res, calls)"
        by (cases "rewriteWithLLM (env_provider env) (env_api env) (env_openai env) (art_title src)
                     (art_content src) ?refs")
      show ?thesis
      proof (cases res)
        case (Inl e)
        then show ?thesis using Inr Some False llm by (simp add: rewriteLatest_def Let_def)
      next
        case (Inr body)
        let ?req = "\<lparr> req_title = Some (art_title src @ '' (Rewritten)''),
                       req_content = Some body, req_source_url = None,
                       req_version = Some ''rewritten'',
                       req_parent_article_id = Some (art_id src),
                       req_references = Some (map ref_url ?refs),
                       req_published_at = None \<rparr>"
        obtain pres rows' where pub: "publishArticle fw env rows ?req = (pres, rows')"
          by (cases "publishArticle fw env rows ?req")
        have run: "rewriteLatest fw env rows =
                 (case pres of
                    Inl e \<Rightarrow> \<lparr> rw_outcome = Thrown e, rw_store = rows',
                               rw_backend_calls = calls, rw_posts = 1 \<rparr>
                  | Inr published \<Rightarrow>
                      \<lparr> rw_outcome = Success (art_id src) (art_id published), rw_store = rows',
                        rw_backend_calls = calls, rw_posts = 1 \<rparr>)"
          using \<open>fetchLatestArticle env = Inr found\<close> Some False llm Inr pub
          by (simp add: rewriteLatest_def Let_def)
        from publishArticle_cases [OF pub] show ?thesis
        proof (elim disjE exE conjE)
          fix e assume "pres = Inl e" "rows' = rows"
          then show ?thesis using run by simp
        next
          fix a assume a: "pres = Inr a" and st: "store fw rows ?req = (Created a, rows')"
          from store_cases [OF st]
          have "art_id a = nextId rows" "art_title a = art_title src @ '' (Rewritten)''"
            "art_parent_article_id a = Some (art_id src)"
            and rows': "rows' = (if art_id src \<noteq> 0 then markRewritten (art_id src) rows else rows) @ [a]"
            by auto
          moreover have "map art_title (take (length rows) rows') = map art_title rows \<and>
                         map art_id (take (length rows) rows') = map art_id rows"
            using store_titles [OF st] .
          ultimately show ?thesis using run a latest
            by (auto simp: markRewritten_length)
        qed
      qed
    qed
  qed
qed

theorem rewritten_title_is_suffixed_witness:
  "rw_outcome (rewriteLatest sample_framework sample_env [sample_article]) = Success 1 2 \<and>
   art_title (last (rw_store (rewriteLatest sample_framework sample_env [sample_article]))) =
     ''Chatbots (Rewritten)'' \<and>
   art_title (hd (rw_store (rewriteLatest sample_framework sample_env [sample_article]))) =
     ''Chatbots''"
proof -
  let ?R = "rewriteLatest sample_framework sample_env [sample_article]"
  have o: "rw_outcome ?R = Success 1 2"
    by code_simp
  have l: "env_latest sample_env = HttpOk sample_article"
    by (simp add: sample_env_def)
  from rewritten_title_is_suffixed [of "[sample_article]" sample_framework sample_env 1 2] o l
  have "art_title (last (rw_store ?R)) = art_title sample_article @ '' (Rewritten)''"
    and t: "map art_title (take (length [sample_article]) (rw_store ?R)) = map art_title [sample_article]"
    and n: "length (rw_store ?R) = Suc (length [sample_article])"
    by auto
  moreover from t n have "art_title (hd (rw_store ?R)) = art_title sample_article"
    by (cases "rw_store ?R") auto
  ultimately show ?thesis using o by (simp add: sample_article_def)
qed

section \<open>The batch of the scraper\<close>

lemma addArticles_bounds:
  "length (addArticles t xs acc) \<le> max t (length acc) \<and>
   (distinct acc \<longrightarrow> distinct (addArticles t xs acc)) \<and>
   prefix acc (addArticles t xs acc)"
proof (induction xs arbitrary: acc)
  case Nil
  then show ?case by simp
next
  case (Cons x xs)
  show ?case
  proof (cases "x \<notin> set acc \<and> length acc < t")
    case True
    with Cons [of "acc @ [x]"] show ?thesis by (auto dest: append_prefixD)
  next
    case False
    with Cons [of acc] show ?thesis by auto
  qed
qed

lemma addArticles_all:
  "distinct (acc @ xs) \<Longrightarrow> length (acc @ xs) \<le> t \<Longrightarrow> addArticles t xs acc = acc @ xs"
  by (induction xs arbitrary: acc) auto

lemma collectLoop_bounds:
  "length (collectLoop f t p acc) \<le> max t (length acc) \<and>
   (distinct acc \<longrightarrow> distinct (collectLoop f t p acc))"
proof (induction p arbitrary: acc)
  case 0
  then show ?case by simp
next
  case (Suc p)
  let ?add = "addArticles t (array_slice_last (f (Suc p)) (t - length acc)) acc"
  have a: "length ?add \<le> max t (length acc)" "distinct acc \<longrightarrow> distinct ?add"
    using addArticles_bounds by blast+
  show ?case
    using Suc [of acc] Suc [of ?add] a
    by (auto simp: Let_def)
qed

lemma array_unique_distinct: "distinct (array_unique xs)"
  by (simp add: array_unique_def)

lemma array_unique_id: "distinct xs \<Longrightarrow> array_unique xs = xs"
  by (simp add: array_unique_def distinct_remdups_id)

lemma getArticleUrlsFromPage_distinct: "distinct (getArticleUrlsFromPage r)"
  by (cases r) (simp_all add: getArticleUrlsFromPage_def Let_def array_unique_distinct)

lemma http_truthy: "startsWith u ''http'' \<Longrightarrow> phpTruthy u \<and> makeAbsolute u = u"
  by (auto simp: startsWith_def phpTruthy_def makeAbsolute_def)

lemma eachNode_all:
  "distinct (urls @ links) \<Longrightarrow> (\<forall>u \<in> set links. startsWith u ''http'' \<and> isArticleLink u) \<Longrightarrow>
   eachNode (map Some links) (urls, found) = (urls @ links, found + length links)"
proof (induction links arbitrary: urls found)
  case Nil
  then show ?case by simp
next
  case (Cons u links)
  then have "eachNode (map Some links) (urls @ [u], Suc found) =
             ((urls @ [u]) @ links, Suc found + length links)"
    by (intro Cons.IH) auto
  then show ?case using Cons.prems http_truthy [of u] by (simp add: Let_def)
qed

lemma first_selector_links:
  assumes "selector_hrefs page ''.entries article.entry-card .entry-title a'' = map Some links"
    and "links \<noteq> []" and "distinct links"
    and "\<forall>u \<in> set links. startsWith u ''http'' \<and> isArticleLink u"
  shows "getArticleUrlsFromPage (HttpOk page) = links"
proof -
  have "eachNode (map Some links) ([], 0) = (links, length links)"
    using eachNode_all [of "[]" links 0] assms by simp
  then have "selectorCascade page articleLinkSelectors [] = links"
    using assms(1,2) by (simp add: articleLinkSelectors_def)
  then show ?thesis
    using assms(2,3) by (simp add: getArticleUrlsFromPage_def Let_def array_unique_id)
qed

lemma single_page_batch:
  assumes "findLastPage s = 1" and "getArticleUrlsFromPage (site_listing s 1) = links"
    and "length links = 7"
  shows "batchUrls s = drop 2 links"
proof -
  have d: "distinct links" using assms(2) getArticleUrlsFromPage_distinct by blast
  have ne: "links \<noteq> []" using assms(3) by auto
  have "addArticles 5 (drop 2 links) [] = [] @ drop 2 links"
    using d assms(3) by (intro addArticles_all) auto
  then have "collectLoop (\<lambda>p. getArticleUrlsFromPage (site_listing s p)) 5 (Suc 0) [] = drop 2 links"
    using assms(2,3) ne by (simp add: Let_def array_slice_last_def)
  then show ?thesis
    using assms(1,3) by (simp add: batchUrls_def collectArticleUrls_def targetCount_def)
qed

text \<open>
  C4. The batch size of the command is the constant 5. For every site the collecting
  loop holds at most 5 URLs, and the batch has at most 5 URLs and no duplicate. When
  the last page is page 1 and that page gives 7 links, the batch is its last 5 links in
  listing order; and a page whose most specific selector finds distinct absolute article
  links gives exactly these links, in order.
\<close>

theorem batch_bounded_distinct_oldest_last:
  "targetCount = 5 \<and>
   length (collectArticleUrls s) \<le> targetCount \<and>
   length (batchUrls s) \<le> targetCount \<and>
   distinct (batchUrls s) \<and>
   (findLastPage s = 1 \<and> getArticleUrlsFromPage (site_listing s 1) = links \<and> length links = 7
      \<longrightarrow> batchUrls s = drop 2 links) \<and>
   (selector_hrefs page ''.entries article.entry-card .entry-title a'' = map Some links \<and>
    links \<noteq> [] \<and> distinct links \<and> (\<forall>u \<in> set links. startsWith u ''http'' \<and> isArticleLink u)
      \<longrightarrow> getArticleUrlsFromPage (HttpOk page) = links)"
proof -
  let ?c = "collectLoop (\<lambda>p. getArticleUrlsFromPage (site_listing s p)) targetCount (findLastPage s) []"
  have "length ?c \<le> targetCount" "distinct ?c"
    using collectLoop_bounds [of _ targetCount _ "[]"] by auto
  then have "length (collectArticleUrls s) \<le> targetCount" "length (batchUrls s) \<le> targetCount"
    "distinct (batchUrls s)"
    by (simp_all add: batchUrls_def collectArticleUrls_def)
  then show ?thesis
    using single_page_batch first_selector_links by (auto simp: targetCount_def)
qed

theorem batch_bounded_distinct_oldest_last_witness:
  "batchUrls seven_site =
     [''https://beyondchats.com/blogs/c/'', ''https://beyondchats.com/blogs/d/'',
      ''https://beyondchats.com/blogs/e/'', ''https://beyondchats.com/blogs/f/'',
      ''https://beyondchats.com/blogs/g/'']"
proof -
  let ?page = "\<lparr> selector_hrefs =
                    (\<lambda>sel. if sel = ''.entries article.entry-card .entry-title a''
                            then map Some seven_links else []),
                  regex_hrefs = [] \<rparr>"
  have q: "\<forall>u \<in> set seven_links. startsWith u ''http'' \<and> isArticleLink u"
    unfolding seven_links_def by code_simp
  have d: "distinct seven_links" "seven_links \<noteq> []" "length seven_links = 7"
    by (simp_all add: seven_links_def)
  have h: "selector_hrefs ?page ''.entries article.entry-card .entry-title a'' = map Some seven_links"
    by simp
  have l: "findLastPage seven_site = 1" "site_listing seven_site 1 = HttpOk ?page"
    by (simp_all add: findLastPage_def seven_site_def)
  from batch_bounded_distinct_oldest_last [of seven_site seven_links ?page] q d h
  have g: "getArticleUrlsFromPage (HttpOk ?page) = seven_links" by blast
  from batch_bounded_distinct_oldest_last [of seven_site seven_links ?page] g l d
  have "batchUrls seven_site = drop 2 seven_links" by simp
  then show ?thesis by (simp add: seven_links_def)
qed

section \<open>Running the scraper twice\<close>

lemma slugLoop_fresh: "\<not> slugExists rows (slugLoop rows baseSlug counter)"
  by (induction rows baseSlug counter rule: slugLoop.induct)
     (subst slugLoop.simps, auto simp: Let_def)

lemma generateUniqueSlug_fresh: "\<not> slugExists rows (generateUniqueSlug rows baseSlug)"
  by (simp add: generateUniqueSlug_def slugLoop_fresh)

lemma sourceUrlExists_prefix:
  "prefix rows rows' \<Longrightarrow> sourceUrlExists rows u \<Longrightarrow> sourceUrlExists rows' u"
  by (auto simp: sourceUrlExists_def prefix_def)

text \<open>One iteration of the storing loop.\<close>

lemma storeLoop_step:
  "(sourceUrlExists rows u \<and>
      (\<forall>sc sk. storeLoop fw s (u # us) rows sc sk = storeLoop fw s us rows sc (Suc sk))) \<or>
   (\<not> sourceUrlExists rows u \<and> scrapeArticlePhp (site_article s) u = None \<and>
      (\<forall>sc sk. storeLoop fw s (u # us) rows sc sk = storeLoop fw s us rows sc sk)) \<or>
   (\<not> sourceUrlExists rows u \<and>
      (\<exists>a. art_source_url a = Some u \<and>
         (\<forall>sc sk. storeLoop fw s (u # us) rows sc sk =
                    storeLoop fw s us (rows @ [a]) (Suc sc) sk))) \<or>
   (\<not> sourceUrlExists rows u \<and>
      (\<forall>sc sk. storeLoop fw s (u # us) rows sc sk =
                 \<lparr> sr_status = FAILURE, sr_rows = rows, sr_scraped = sc, sr_skipped = sk \<rparr>))"
proof (cases "sourceUrlExists rows u")
  case True
  then show ?thesis by simp
next
  case False
  show ?thesis
  proof (cases "scrapeArticlePhp (site_article s) u")
    case None
    then show ?thesis using False by simp
  next
    case (Some d)
    let ?slug = "generateUniqueSlug rows (str_slug fw (sa_title d))"
    let ?a0 = "\<lparr> art_id = 0, art_title = sa_title d, art_slug = ?slug,
                 art_content = sa_content d,
                 art_source_url = Some u, art_version = ''original'',
                 art_is_rewritten = False, art_parent_article_id = None,
                 art_references = None,
                 art_published_at =
                   Some (case sa_published_at d of None \<Rightarrow> site_now s | Some d \<Rightarrow> d) \<rparr>"
    have fresh: "\<not> slugExists rows ?slug" by (rule generateUniqueSlug_fresh)
    show ?thesis
    proof (cases "insertArticle rows ?a0")
      case (Inr pair)
      obtain a rows' where pair: "pair = (a, rows')" by (cases pair)
      with Inr have "a = ?a0\<lparr>art_id := nextId rows\<rparr>" "rows' = rows @ [a]"
        using insertArticle_Inr by blast+
      then have "art_source_url a = Some u"
        and "\<forall>sc sk. storeLoop fw s (u # us) rows sc sk =
                      storeLoop fw s us (rows @ [a]) (Suc sc) sk"
        using False Some fresh Inr pair by (simp_all add: Let_def)
      then show ?thesis using False by blast
    next
      case (Inl e)
      obtain code where e: "e = QueryException code" by (cases e)
      have "code \<noteq> 23000"
        using Inl e fresh False by (auto simp: insertArticle_def Let_def split: if_splits)
      then have "\<forall>sc sk. storeLoop fw s (u # us) rows sc sk =
                 \<lparr> sr_status = FAILURE, sr_rows = rows, sr_scraped = sc, sr_skipped = sk \<rparr>"
        using False Some fresh Inl e by (simp add: Let_def)
      then show ?thesis using False by blast
    qed
  qed
qed

lemma storeLoop_prefix: "prefix rows (sr_rows (storeLoop fw s urls rows sc sk))"
proof (induction urls arbitrary: rows sc sk)
  case Nil
  then show ?case by simp
next
  case (Cons u us)
  from storeLoop_step [of rows u fw s us] show ?case
  proof (elim disjE conjE exE)
    fix a assume "\<forall>sc sk. storeLoop fw s (u # us) rows sc sk =
                    storeLoop fw s us (rows @ [a]) (Suc sc) sk"
    moreover have "prefix (rows @ [a]) (sr_rows (storeLoop fw s us (rows @ [a]) (Suc sc) sk))"
      by (rule Cons)
    ultimately show ?thesis by (auto dest: append_prefixD)
  qed (use Cons in auto)
qed

lemma storeLoop_again:
  "sr_rows (storeLoop fw s urls (sr_rows (storeLoop fw s urls rows sc sk)) sc' sk') =
     sr_rows (storeLoop fw s urls rows sc sk) \<and>
   sr_scraped (storeLoop fw s urls (sr_rows (storeLoop fw s urls rows sc sk)) sc' sk') = sc' \<and>
   sr_status (storeLoop fw s urls (sr_rows (storeLoop fw s urls rows sc sk)) sc' sk') =
     sr_status (storeLoop fw s urls rows sc sk)"
proof (induction urls arbitrary: rows sc sk sc' sk')
  case Nil
  then show ?case by simp
next
  case (Cons u us)
  let ?R = "storeLoop fw s (u # us) rows sc sk"
  let ?rows1 = "sr_rows ?R"
  from storeLoop_step [of rows u fw s us] show ?case
  proof (elim disjE conjE exE)
    assume ex: "sourceUrlExists rows u"
      and st: "\<forall>sc sk. storeLoop fw s (u # us) rows sc sk = storeLoop fw s us rows sc (Suc sk)"
    then have r: "?R = storeLoop fw s us rows sc (Suc sk)" by simp
    have "prefix rows ?rows1" by (rule storeLoop_prefix)
    then have "sourceUrlExists ?rows1 u" using ex sourceUrlExists_prefix by blast
    then have "storeLoop fw s (u # us) ?rows1 sc' sk' = storeLoop fw s us ?rows1 sc' (Suc sk')"
      by simp
    then show ?thesis unfolding r using Cons [of rows sc "Suc sk" sc' "Suc sk'"] by simp
  next
    assume none: "scrapeArticlePhp (site_article s) u = None"
      and st: "\<forall>sc sk. storeLoop fw s (u # us) rows sc sk = storeLoop fw s us rows sc sk"
    then have r: "?R = storeLoop fw s us rows sc sk" by simp
    have "\<exists>k. storeLoop fw s (u # us) ?rows1 sc' sk' = storeLoop fw s us ?rows1 sc' k"
      using none by (cases "sourceUrlExists ?rows1 u") auto
    then obtain k where "storeLoop fw s (u # us) ?rows1 sc' sk' = storeLoop fw s us ?rows1 sc' k"
      by blast
    then show ?thesis unfolding r using Cons [of rows sc sk sc' k] by simp
  next
    fix a
    assume a: "art_source_url a = Some u"
      and st: "\<forall>sc sk. storeLoop fw s (u # us) rows sc sk =
                          storeLoop fw s us (rows @ [a]) (Suc sc) sk"
    then have r: "?R = storeLoop fw s us (rows @ [a]) (Suc sc) sk" by simp
    have "prefix (rows @ [a]) ?rows1" unfolding r by (rule storeLoop_prefix)
    moreover have "sourceUrlExists (rows @ [a]) u" using a by (simp add: sourceUrlExists_def)
    ultimately have "sourceUrlExists ?rows1 u" using sourceUrlExists_prefix by blast
    then have "storeLoop fw s (u # us) ?rows1 sc' sk' = storeLoop fw s us ?rows1 sc' (Suc sk')"
      by simp
    then show ?thesis unfolding r using Cons [of "rows @ [a]" "Suc sc" sk sc' "Suc sk'"] by simp
  next
    assume st: "\<forall>sc sk. storeLoop fw s (u # us) rows sc sk =
                 \<lparr> sr_status = FAILURE, sr_rows = rows, sr_scraped = sc, sr_skipped = sk \<rparr>"
    then show ?thesis by simp
  qed
qed

lemma storeLoop_candidates:
  "sr_status (storeLoop fw s urls rows sc sk) = SUCCESS \<Longrightarrow> u \<in> set urls \<Longrightarrow>
   sourceUrlExists (sr_rows (storeLoop fw s urls rows sc sk)) u \<or>
   scrapeArticlePhp (site_article s) u = None"
proof (induction urls arbitrary: rows sc sk)
  case Nil
  then show ?case by simp
next
  case (Cons v us)
  let ?R = "storeLoop fw s (v # us) rows sc sk"
  from storeLoop_step [of rows v fw s us] show ?case
  proof (elim disjE conjE exE)
    assume ex: "sourceUrlExists rows v"
      and st: "\<forall>sc sk. storeLoop fw s (v # us) rows sc sk = storeLoop fw s us rows sc (Suc sk)"
    then have r: "?R = storeLoop fw s us rows sc (Suc sk)" by simp
    have "sourceUrlExists (sr_rows ?R) v"
      using ex sourceUrlExists_prefix storeLoop_prefix by blast
    then show ?thesis using Cons.prems Cons.IH [of rows sc "Suc sk"] unfolding r by auto
  next
    assume none: "scrapeArticlePhp (site_article s) v = None"
      and st: "\<forall>sc sk. storeLoop fw s (v # us) rows sc sk = storeLoop fw s us rows sc sk"
    then have r: "?R = storeLoop fw s us rows sc sk" by simp
    show ?thesis using none Cons.prems Cons.IH [of rows sc sk] unfolding r by auto
  next
    fix a
    assume a: "art_source_url a = Some v"
      and st: "\<forall>sc sk. storeLoop fw s (v # us) rows sc sk =
                          storeLoop fw s us (rows @ [a]) (Suc sc) sk"
    then have r: "?R = storeLoop fw s us (rows @ [a]) (Suc sc) sk" by simp
    have "prefix (rows @ [a]) (sr_rows ?R)" unfolding r by (rule storeLoop_prefix)
    moreover have "sourceUrlExists (rows @ [a]) v" using a by (simp add: sourceUrlExists_def)
    ultimately have "sourceUrlExists (sr_rows ?R) v" using sourceUrlExists_prefix by blast
    then show ?thesis using Cons.prems Cons.IH [of "rows @ [a]" "Suc sc" sk] unfolding r by auto
  next
    assume "\<forall>sc sk. storeLoop fw s (v # us) rows sc sk =
                 \<lparr> sr_status = FAILURE, sr_rows = rows, sr_scraped = sc, sr_skipped = sk \<rparr>"
    then show ?thesis using Cons.prems by simp
  qed
qed

text \<open>
  C8, as the code has it. A second run of the command on the same site, from the table
  the first run left, leaves that table as it is, counts no scraped article and ends
  with the status of the first run. When the first run succeeded, every URL of the batch
  either is the \<^verbatim>\<open>source_url\<close> of a stored article, and is skipped, or is a URL whose
  page does not scrape, and is passed over again. When the first run failed, on an
  empty batch or on a database exception, the second run fails again.
\<close>

theorem second_run_stores_nothing:
  "sr_rows (handle fw s (sr_rows (handle fw s rows))) = sr_rows (handle fw s rows) \<and>
   sr_scraped (handle fw s (sr_rows (handle fw s rows))) = 0 \<and>
   sr_status (handle fw s (sr_rows (handle fw s rows))) = sr_status (handle fw s rows) \<and>
   (sr_status (handle fw s rows) = SUCCESS \<longrightarrow>
      (\<forall>u \<in> set (batchUrls s).
         sourceUrlExists (sr_rows (handle fw s rows)) u \<or>
         scrapeArticlePhp (site_article s) u = None))"
proof (cases "collectArticleUrls s = []")
  case True
  then show ?thesis by (simp add: handle_def batchUrls_def)
next
  case False
  then have h: "handle fw s r = storeLoop fw s (batchUrls s) r 0 0" for r
    by (simp add: handle_def)
  show ?thesis
    unfolding h using storeLoop_again [of fw s "batchUrls s" rows 0 0 0 0]
      storeLoop_candidates [of fw s "batchUrls s" rows 0 0]
    by auto
qed

theorem second_run_stores_nothing_witness:
  "sr_rows (handle sample_framework seven_site (sr_rows (handle sample_framework seven_site []))) =
     sr_rows (handle sample_framework seven_site []) \<and>
   map art_source_url (sr_rows (handle sample_framework seven_site [])) =
     [Some ''https://beyondchats.com/blogs/c/'', Some ''https://beyondchats.com/blogs/e/'',
      Some ''https://beyondchats.com/blogs/f/'', Some ''https://beyondchats.com/blogs/g/''] \<and>
   sr_scraped (handle sample_framework seven_site (sr_rows (handle sample_framework seven_site []))) = 0 \<and>
   sr_status (handle sample_framework seven_site (sr_rows (handle sample_framework seven_site []))) =
     SUCCESS \<and>
   scrapeArticlePhp (site_article seven_site) ''https://beyondchats.com/blogs/d/'' = None \<and>
   sr_rows (handle sample_framework long_title_site
              (sr_rows (handle sample_framework long_title_site []))) = [] \<and>
   sr_status (handle sample_framework long_title_site
                (sr_rows (handle sample_framework long_title_site []))) = FAILURE"
proof -
  let ?d = "''https://beyondchats.com/blogs/d/''"
  have src: "map art_source_url (sr_rows (handle sample_framework seven_site [])) =
     [Some ''https://beyondchats.com/blogs/c/'', Some ''https://beyondchats.com/blogs/e/'',
      Some ''https://beyondchats.com/blogs/f/'', Some ''https://beyondchats.com/blogs/g/'']"
    by code_simp
  have ok: "sr_status (handle sample_framework seven_site []) = SUCCESS"
    by code_simp
  have d: "?d \<in> set (batchUrls seven_site)"
    by code_simp
  have nd: "\<not> sourceUrlExists (sr_rows (handle sample_framework seven_site [])) ?d"
    unfolding sourceUrlExists_def src by simp
  have "handle sample_framework long_title_site [] =
          \<lparr> sr_status = FAILURE, sr_rows = [], sr_scraped = 0, sr_skipped = 0 \<rparr>"
    by code_simp
  then have fl: "sr_status (handle sample_framework long_title_site []) = FAILURE"
    "sr_rows (handle sample_framework long_title_site []) = []"
    by simp_all
  from second_run_stores_nothing [of sample_framework seven_site "[]"] ok d nd
  have "scrapeArticlePhp (site_article seven_site) ?d = None" by blast
  then show ?thesis
    using second_run_stores_nothing [of sample_framework seven_site "[]"]
      second_run_stores_nothing [of sample_framework long_title_site "[]"] src ok fl
    by simp
qed

text \<open>C8 as stated fails in its middle part: a candidate whose page did not scrape has no
  article after the first run and is not skipped in the second; it is scraped again.\<close>

theorem unscraped_candidate_counterexample:
  "batchUrls seven_site ! 1 = ''https://beyondchats.com/blogs/d/'' \<and>
   \<not> sourceUrlExists (sr_rows (handle sample_framework seven_site []))
        ''https://beyondchats.com/blogs/d/'' \<and>
   sr_skipped (handle sample_framework seven_site
                 (sr_rows (handle sample_framework seven_site []))) = 4"
  by code_simp

end
